theory Spec2Isabelle
  imports Complex_Main "HOL-Library.Char_ord" "HOL-Library.List_Lexorder"
begin

section \<open>Kolibri ingest (v7): the timestamp cascade, the processors and the manifest\<close>

text \<open>
  The development follows the ingest script of the repository (the file whose header reads
  ``Kolibri ingest -- v7''). Epoch milliseconds are real numbers: the script only compares
  and subtracts them, and both are exact on the doubles it handles. Paths are POSIX paths.
\<close>

subsection \<open>Timestamp candidates\<close>

text \<open>
  A timestamp candidate is a JavaScript value that is \<open>null\<close>, a finite number, or a
  number that \<open>Number.isFinite\<close> rejects (\<open>NaN\<close>, \<open>Infinity\<close>, \<open>-Infinity\<close>).
\<close>

datatype jsnum = Null | Num real | NonFinite

subsection \<open>Paths, extensions and numeric tokens\<close>

definition is_digit :: "char \<Rightarrow> bool" where
  "is_digit c = (c \<in> set ''0123456789'')"

definition lower_char :: "char \<Rightarrow> char" where
  "lower_char c =
     (case map_of (zip ''ABCDEFGHIJKLMNOPQRSTUVWXYZ'' ''abcdefghijklmnopqrstuvwxyz'') c of
        None \<Rightarrow> c
      | Some l \<Rightarrow> l)"

definition toLowerCase :: "string \<Rightarrow> string" where
  "toLowerCase s = map lower_char s"

text \<open>\<open>path.isAbsolute\<close> on a POSIX path.\<close>

definition isAbsolute :: "string \<Rightarrow> bool" where
  "isAbsolute p = (take 1 p = ''/'')"

text \<open>\<open>path.basename\<close>: trailing separators are dropped, then the last segment is taken.\<close>

definition basename :: "string \<Rightarrow> string" where
  "basename p =
     rev (takeWhile (\<lambda>c. c \<noteq> CHR ''/'') (dropWhile (\<lambda>c. c = CHR ''/'') (rev p)))"

text \<open>
  \<open>path.extname\<close>: from the last dot of the basename to its end; empty when there is no
  dot, when the only dot opens the basename, and for \<open>..\<close>.
\<close>

definition extname :: "string \<Rightarrow> string" where
  "extname p =
     (let b = basename p;
          e = rev (takeWhile (\<lambda>c. c \<noteq> CHR ''.'') (rev b))
      in if CHR ''.'' \<notin> set b then []
         else if length b = Suc (length e) then []
         else if b = ''..'' then []
         else CHR ''.'' # e)"

text \<open>\<open>path.parse(base).name\<close>: the basename without its extension.\<close>

definition stem_of :: "string \<Rightarrow> string" where
  "stem_of base = take (length base - length (extname base)) base"

definition IMAGE_EXTS :: "string list" where
  "IMAGE_EXTS = [''.jpg'', ''.jpeg'', ''.png'', ''.webp'']"

definition VIDEO_EXTS :: "string list" where
  "VIDEO_EXTS = [''.mp4'', ''.mov'', ''.m4v'', ''.webm'']"

definition isImage :: "string \<Rightarrow> bool" where
  "isImage p = (toLowerCase (extname p) \<in> set IMAGE_EXTS)"

definition isVideo :: "string \<Rightarrow> bool" where
  "isVideo p = (toLowerCase (extname p) \<in> set VIDEO_EXTS)"

text \<open>
  \<open>name.match(/\d{10,}/g) || []\<close>: the quantifier is greedy, so the matches are the maximal
  runs of digits that are at least ten long, from left to right. \<open>digit_runs cur s\<close> scans
  \<open>s\<close> with the run read so far in \<open>cur\<close> (reversed).
\<close>

fun digit_runs :: "string \<Rightarrow> string \<Rightarrow> string list" where
  "digit_runs cur [] = (if cur = [] then [] else [rev cur])"
| "digit_runs cur (c # cs) =
     (if is_digit c then digit_runs (c # cur) cs
      else (if cur = [] then [] else [rev cur]) @ digit_runs [] cs)"

definition extractNumericTokens :: "string \<Rightarrow> string list" where
  "extractNumericTokens name = filter (\<lambda>t. length t \<ge> 10) (digit_runs [] name)"

subsection \<open>Date.UTC\<close>

text \<open>
  \<open>Date.UTC(y, mo, d, h, 0, 0)\<close> after ECMAScript's MakeDay, MakeTime and MakeDate: months
  outside 0..11 carry into the year, two-digit years mean 19xx.
\<close>

definition DayFromYear :: "int \<Rightarrow> int" where
  "DayFromYear y =
     365 * (y - 1970) + (y - 1969) div 4 - (y - 1901) div 100 + (y - 1601) div 400"

definition InLeapYear :: "int \<Rightarrow> bool" where
  "InLeapYear y = ((y mod 4 = 0 \<and> y mod 100 \<noteq> 0) \<or> y mod 400 = 0)"

definition DaysBeforeMonth :: "int \<Rightarrow> nat \<Rightarrow> int" where
  "DaysBeforeMonth y mn =
     [0, 31, 59, 90, 120, 151, 181, 212, 243, 273, 304, 334] ! mn
       + (if InLeapYear y \<and> mn \<ge> 2 then 1 else 0)"

definition MakeDay :: "int \<Rightarrow> int \<Rightarrow> int \<Rightarrow> int" where
  "MakeDay year month date =
     (let ym = year + month div 12;
          mn = nat (month mod 12)
      in DayFromYear ym + DaysBeforeMonth ym mn + date - 1)"

definition Date_UTC :: "int \<Rightarrow> int \<Rightarrow> int \<Rightarrow> int \<Rightarrow> int" where
  "Date_UTC y mo d h =
     (let yr = (if 0 \<le> y \<and> y \<le> 99 then 1900 + y else y)
      in MakeDay yr mo d * 86400000 + h * 3600000)"

subsection \<open>Plausibility\<close>

definition MIN_TS :: real where
  "MIN_TS = of_int (Date_UTC 2010 0 1 0)"

text \<open>\<open>NOW + 3*24*3600*1000\<close>; \<open>NOW\<close> is the clock reading taken when the script starts.\<close>

definition MAX_TS :: "real \<Rightarrow> real" where
  "MAX_TS NOW = NOW + 3 * 24 * 3600 * 1000"

fun plausible :: "real \<Rightarrow> jsnum \<Rightarrow> bool" where
  "plausible NOW (Num t) = (t \<ge> MIN_TS \<and> t \<le> MAX_TS NOW)"
| "plausible NOW Null = False"
| "plausible NOW NonFinite = False"

text \<open>
  The statement \<open>if(!plausible(x)) x = null\<close>. Afterwards the variable is \<open>null\<close> or a
  finite number, which the result type records.
\<close>

fun keep_plausible :: "real \<Rightarrow> jsnum \<Rightarrow> real option" where
  "keep_plausible NOW (Num t) = (if \<not> plausible NOW (Num t) then None else Some t)"
| "keep_plausible NOW Null = None"
| "keep_plausible NOW NonFinite = None"

subsection \<open>The folder date\<close>

text \<open>\<open>Number(s)\<close> on a string of decimal digits.\<close>

definition digit_val :: "char \<Rightarrow> int" where
  "digit_val c =
     (case map_of (zip ''0123456789'' [0, 1, 2, 3, 4, 5, 6, 7, 8, 9]) c of
        None \<Rightarrow> 0
      | Some v \<Rightarrow> v)"

definition Number_digits :: "string \<Rightarrow> int" where
  "Number_digits s = foldl (\<lambda>n c. 10 * n + digit_val c) 0 s"

text \<open>\<open>absPath.replace(/\\/g,"/")\<close>\<close>

definition slashes :: "string \<Rightarrow> string" where
  "slashes s = map (\<lambda>c. if c = CHR 0x5C then CHR ''/'' else c) s"

text \<open>
  The pattern \<open>/\/media\/(posts|reels)\/(20\d{2})(\d{2})\//\<close> tried at the head of a
  string; the result is the two digit groups \<open>m[2]\<close> and \<open>m[3]\<close>.
\<close>

fun folder_groups :: "string \<Rightarrow> (string \<times> string) option" where
  "folder_groups (s1 # a # b # c # d # e # f # s2 # rest) =
     (if s1 = CHR ''/'' \<and> a = CHR ''2'' \<and> b = CHR ''0'' \<and> is_digit c \<and> is_digit d
         \<and> is_digit e \<and> is_digit f \<and> s2 = CHR ''/''
      then Some ([a, b, c, d], [e, f]) else None)"
| "folder_groups _ = None"

definition folder_match_here :: "string \<Rightarrow> (string \<times> string) option" where
  "folder_match_here s =
     (if take 7 s = ''/media/'' \<and> (take 5 (drop 7 s) = ''posts'' \<or> take 5 (drop 7 s) = ''reels'')
      then folder_groups (drop 12 s) else None)"

text \<open>\<open>String.prototype.match\<close> without the g flag: the leftmost match.\<close>

fun folder_match :: "string \<Rightarrow> (string \<times> string) option" where
  "folder_match [] = None"
| "folder_match (c # cs) =
     (case folder_match_here (c # cs) of
        Some g \<Rightarrow> Some g
      | None \<Rightarrow> folder_match cs)"

text \<open>
  A path that holds a \<open>/media/(posts|reels)/20YYMM/\<close> segment after \<open>pre\<close>, with year digits
  \<open>y\<close> and month digits \<open>m\<close>.
\<close>

definition folder_segment :: "string \<Rightarrow> string \<Rightarrow> string \<Rightarrow> string \<Rightarrow> string \<Rightarrow> string \<Rightarrow> bool" where
  "folder_segment s pre kind y m rest =
     (s = pre @ ''/media/'' @ kind @ ''/'' @ y @ m @ ''/'' @ rest
      \<and> (kind = ''posts'' \<or> kind = ''reels'')
      \<and> length y = 4 \<and> take 2 y = ''20'' \<and> length m = 2
      \<and> (\<forall>c\<in>set (y @ m). is_digit c))"

definition tsFromFolder :: "string \<Rightarrow> jsnum" where
  "tsFromFolder absPath =
     (case folder_match (slashes absPath) of
        None \<Rightarrow> Null
      | Some (g2, g3) \<Rightarrow>
          (let y = Number_digits g2; mo = Number_digits g3 - 1
           in Num (of_int (Date_UTC y mo 15 12))))"

subsection \<open>The metadata index\<close>

text \<open>An index entry \<open>{ ts, caption }\<close>; \<open>ts\<close> is what \<open>getTsMs\<close> returned, possibly \<open>null\<close>.\<close>

record meta =
  ts :: jsnum
  caption :: string

text \<open>
  An export record after \<open>getTsMs\<close>, \<open>getCaption\<close> and \<open>collectUrisDeep\<close> have read it: its
  timestamp, its caption and the media basenames it references, in insertion order.
\<close>

record export_rec =
  rec_ts :: jsnum
  rec_caption :: string
  rec_uris :: "string list"

record meta_index =
  byBase :: "string \<rightharpoonup> meta"
  byNumericId :: "string \<rightharpoonup> meta"

definition set_if_absent :: "('k \<rightharpoonup> 'v) \<Rightarrow> 'k \<Rightarrow> 'v \<Rightarrow> ('k \<rightharpoonup> 'v)" where
  "set_if_absent m k v = (case m k of None \<Rightarrow> m(k \<mapsto> v) | Some _ \<Rightarrow> m)"

definition index_base :: "meta \<Rightarrow> meta_index \<Rightarrow> string \<Rightarrow> meta_index" where
  "index_base e idx base =
     (let idx1 = idx\<lparr>byBase := set_if_absent (byBase idx) base e\<rparr>
      in foldl (\<lambda>i token. i\<lparr>byNumericId := set_if_absent (byNumericId i) token e\<rparr>)
           idx1 (extractNumericTokens base))"

definition index_record :: "meta_index \<Rightarrow> export_rec \<Rightarrow> meta_index" where
  "index_record idx r =
     foldl (index_base \<lparr>ts = rec_ts r, caption = rec_caption r\<rparr>) idx (rec_uris r)"

definition buildMetaIndex :: "export_rec list \<Rightarrow> meta_index" where
  "buildMetaIndex records =
     foldl index_record \<lparr>byBase = Map.empty, byNumericId = Map.empty\<rparr> records"

subsection \<open>The outside world\<close>

text \<open>
  What the script reads from its surroundings: the command line, the clock, the file
  system and the external tools. A tool invocation succeeds (\<open>None\<close>) or fails with the
  message of the error it throws; its outcome may depend on the invocations made before it.
  \<open>slugify\<close> normalises Unicode and \<open>hashFile\<close> is a SHA-1 digest; both are taken as given.
\<close>

datatype call =
    Resize string string
  | Transcode string string
  | Remux string string
  | ProbeStreams string
  | Synth string string
  | Poster string string
  | SolidPoster string

record env =
  NOW :: real
  FORCE :: bool
  hasFFPROBE :: bool
  hashFile :: "string \<Rightarrow> string"
  slugify :: "string \<Rightarrow> string"
  mtimeMs :: "string \<Rightarrow> real"
  ffprobeCreationTime :: "string \<Rightarrow> real option"
  hasAudio :: "string \<Rightarrow> bool"
  tool :: "call list \<Rightarrow> call \<Rightarrow> string option"

subsection \<open>Resolving the timestamp of one file\<close>

text \<open>
  The lines of the per-file task from the metadata lookup to the choice of \<open>ts\<close>. Three
  fields of the result are bookkeeping that the script does not store: which operand of
  the final \<open>??\<close> chain supplied the value, whether the token loop was entered, and whether
  \<open>ffprobeCreationTime\<close> was called.
\<close>

datatype source = JsonBasename | JsonToken | Ffprobe | FolderDate | Mtime

record resolution =
  res_meta :: "meta option"
  res_ts :: real
  res_source :: source
  fuzzy_tried :: bool
  probe_called :: bool

text \<open>The loop over the tokens: the first token that the index has wins.\<close>

fun first_token :: "(string \<rightharpoonup> meta) \<Rightarrow> string list \<Rightarrow> meta option" where
  "first_token idx [] = None"
| "first_token idx (tok # toks) =
     (case idx tok of
        Some m \<Rightarrow> Some m
      | None \<Rightarrow> first_token idx toks)"

text \<open>\<open>!ts\<close> on a value that is \<open>null\<close> or a finite number.\<close>

fun falsy :: "real option \<Rightarrow> bool" where
  "falsy None = True"
| "falsy (Some t) = (t = 0)"

definition resolveTimestamp :: "env \<Rightarrow> meta_index \<Rightarrow> string \<Rightarrow> resolution" where
  "resolveTimestamp env idx absPath =
     (let base = basename absPath;
          direct = byBase idx base;
          fuzzy = (direct = None);
          meta = (if fuzzy then first_token (byNumericId idx) (extractNumericTokens base)
                  else direct);
          ts0 = keep_plausible (NOW env) (case meta of None \<Rightarrow> Null | Some m \<Rightarrow> ts m);
          probe = (falsy ts0 \<and> isVideo absPath \<and> hasFFPROBE env);
          probeTs = (if probe
                     then keep_plausible (NOW env)
                            (case ffprobeCreationTime env absPath of None \<Rightarrow> Null | Some t \<Rightarrow> Num t)
                     else None);
          folderTs = keep_plausible (NOW env) (tsFromFolder absPath);
          (t, s) = (case ts0 of
                      Some t \<Rightarrow> (t, if fuzzy then JsonToken else JsonBasename)
                    | None \<Rightarrow>
                        (case probeTs of
                           Some t \<Rightarrow> (t, Ffprobe)
                         | None \<Rightarrow>
                             (case folderTs of
                                Some t \<Rightarrow> (t, FolderDate)
                              | None \<Rightarrow> (mtimeMs env absPath, Mtime))))
      in \<lparr>res_meta = meta, res_ts = t, res_source = s,
          fuzzy_tried = fuzzy, probe_called = probe\<rparr>)"

subsection \<open>The processors\<close>

text \<open>
  The state the tasks share: the files under the output directory (named by their path
  relative to it), the invocations the two processors made so far, the skip log (reason
  and source path of each line) and the accumulated manifest items. The creation-time
  probe belongs to the resolution, which records it in \<open>probe_called\<close>; it is not among
  the \<open>calls\<close>. The \<open>date\<close> field of an item is the ISO rendering of its \<open>ts\<close> and is
  left out.
\<close>

record item =
  item_id :: string
  item_type :: string
  src :: string
  thumb :: string
  item_ts :: real
  item_caption :: string
  hidden :: bool

record world =
  disk :: "string set"
  calls :: "call list"
  skiplog :: "(string \<times> string) list"
  items :: "item list"

text \<open>
  One tool invocation writing \<open>out\<close>: the file is there afterwards if the tool succeeds,
  and a failing tool is taken to leave the directory as it was. Console output and the
  progress bar are left out; the output directories exist from the start of \<open>main\<close>, so
  \<open>ensureDir\<close> changes nothing.
\<close>

definition invoke :: "env \<Rightarrow> call \<Rightarrow> string \<Rightarrow> world \<Rightarrow> string option \<times> world" where
  "invoke env c out w =
     (case tool env (calls w) c of
        None \<Rightarrow> (None, w\<lparr>disk := insert out (disk w), calls := calls w @ [c]\<rparr>)
      | Some e \<Rightarrow> (Some e, w\<lparr>calls := calls w @ [c]\<rparr>))"

definition logSkip :: "string \<Rightarrow> string \<Rightarrow> world \<Rightarrow> world" where
  "logSkip absPath reason w = w\<lparr>skiplog := skiplog w @ [(reason, absPath)]\<rparr>"

definition processImage :: "env \<Rightarrow> string \<Rightarrow> string \<Rightarrow> string \<Rightarrow> world \<Rightarrow> bool \<times> world" where
  "processImage env source outFull outThumb w =
     (if \<not> FORCE env \<and> outFull \<in> disk w \<and> outThumb \<in> disk w then (True, w)
      else
        (case invoke env (Resize source outFull) outFull w of
           (Some e, w1) \<Rightarrow> (False, logSkip source (''image process failed: '' @ e) w1)
         | (None, w1) \<Rightarrow>
             (case invoke env (Resize source outThumb) outThumb w1 of
                (Some e, w2) \<Rightarrow> (False, logSkip source (''image process failed: '' @ e) w2)
              | (None, w2) \<Rightarrow> (True, w2))))"

definition tryMakePoster :: "env \<Rightarrow> string \<Rightarrow> string \<Rightarrow> world \<Rightarrow> bool \<times> world" where
  "tryMakePoster env srcForFrame outPoster w =
     (case invoke env (Poster srcForFrame outPoster) outPoster w of
        (None, w1) \<Rightarrow> (True, w1)
      | (Some _, w1) \<Rightarrow>
          (case invoke env (SolidPoster outPoster) outPoster w1 of
             (None, w2) \<Rightarrow> (True, w2)
           | (Some _, w2) \<Rightarrow> (False, w2)))"

definition synth :: "env \<Rightarrow> string \<Rightarrow> string \<Rightarrow> world \<Rightarrow> string option \<times> world" where
  "synth env source outMp4 w =
     (let w1 = w\<lparr>calls := calls w @ [ProbeStreams source]\<rparr>
      in if \<not> hasAudio env source then (Some ''no audio to synth'', w1)
         else invoke env (Synth source outMp4) outMp4 w1)"

text \<open>The poster step that follows a successful transcode, remux or synth.\<close>

definition poster_step :: "env \<Rightarrow> string \<Rightarrow> string \<Rightarrow> string \<Rightarrow> world \<Rightarrow> bool \<times> world" where
  "poster_step env source outMp4 outPoster w =
     (let (ok1, w1) = tryMakePoster env outMp4 outPoster w;
          (posterOK, w2) = (if ok1 then (True, w1) else tryMakePoster env source outPoster w1)
      in if \<not> posterOK
         then (let w3 = logSkip source ''poster failed; using solid placeholder'' w2;
                   (_, w4) = invoke env (SolidPoster outPoster) outPoster w3
               in (True, w4))
         else (True, w2))"

definition processVideo :: "env \<Rightarrow> string \<Rightarrow> string \<Rightarrow> string \<Rightarrow> world \<Rightarrow> bool \<times> world" where
  "processVideo env source outMp4 outPoster w =
     (if \<not> FORCE env \<and> outMp4 \<in> disk w \<and> outPoster \<in> disk w then (True, w)
      else
        (case invoke env (Transcode source outMp4) outMp4 w of
           (None, w1) \<Rightarrow> poster_step env source outMp4 outPoster w1
         | (Some e1, w1) \<Rightarrow>
             (case invoke env (Remux source outMp4) outMp4 w1 of
                (None, w2) \<Rightarrow> poster_step env source outMp4 outPoster w2
              | (Some e2, w2) \<Rightarrow>
                  (case synth env source outMp4 w2 of
                     (None, w3) \<Rightarrow> poster_step env source outMp4 outPoster w3
                   | (Some e3, w3) \<Rightarrow>
                       (False,
                        logSkip source
                          (''video failed: transcode -> '' @ e1 @ ''; remux -> '' @ e2
                             @ ''; synth -> '' @ e3) w3)))))"

subsection \<open>The per-file task and the manifest\<close>

text \<open>
  The values the task computes before it dispatches: the identifier
  \<open>`${slugify(stem)}-${hash}`\<close>, the four output paths, the caption \<open>meta?.caption ?? ""\<close>
  and the item it pushes on success.
\<close>

definition ident_of :: "env \<Rightarrow> string \<Rightarrow> string" where
  "ident_of env absPath =
     slugify env (stem_of (basename absPath)) @ ''-'' @ hashFile env absPath"

definition outFull_of :: "env \<Rightarrow> string \<Rightarrow> string" where
  "outFull_of env absPath = ''assets/media/img/full/'' @ ident_of env absPath @ ''.webp''"

definition outThumb_of :: "env \<Rightarrow> string \<Rightarrow> string" where
  "outThumb_of env absPath = ''assets/media/img/thumbs/'' @ ident_of env absPath @ ''.webp''"

definition outMp4_of :: "env \<Rightarrow> string \<Rightarrow> string" where
  "outMp4_of env absPath = ''assets/media/video/720p/'' @ ident_of env absPath @ ''.mp4''"

definition outPoster_of :: "env \<Rightarrow> string \<Rightarrow> string" where
  "outPoster_of env absPath = ''assets/media/video/posters/'' @ ident_of env absPath @ ''.jpg''"

definition caption_of :: "meta option \<Rightarrow> string" where
  "caption_of m = (case m of None \<Rightarrow> [] | Some e \<Rightarrow> caption e)"

definition image_item :: "env \<Rightarrow> meta_index \<Rightarrow> string \<Rightarrow> item" where
  "image_item env idx absPath =
     (let r = resolveTimestamp env idx absPath
      in \<lparr>item_id = ident_of env absPath, item_type = ''image'',
          src = outFull_of env absPath, thumb = outThumb_of env absPath,
          item_ts = res_ts r, item_caption = caption_of (res_meta r), hidden = False\<rparr>)"

definition video_item :: "env \<Rightarrow> meta_index \<Rightarrow> string \<Rightarrow> item" where
  "video_item env idx absPath =
     (let r = resolveTimestamp env idx absPath
      in \<lparr>item_id = ident_of env absPath, item_type = ''video'',
          src = outMp4_of env absPath, thumb = outPoster_of env absPath,
          item_ts = res_ts r, item_caption = caption_of (res_meta r), hidden = False\<rparr>)"

definition task :: "env \<Rightarrow> meta_index \<Rightarrow> string \<Rightarrow> world \<Rightarrow> world" where
  "task env idx absPath w =
     (if isImage absPath then
        (let (ok, w1) = processImage env absPath (outFull_of env absPath)
                          (outThumb_of env absPath) w
         in if ok then w1\<lparr>items := items w1 @ [image_item env idx absPath]\<rparr> else w1)
      else if isVideo absPath then
        (let (ok, w1) = processVideo env absPath (outMp4_of env absPath)
                          (outPoster_of env absPath) w
         in if ok then w1\<lparr>items := items w1 @ [video_item env idx absPath]\<rparr> else w1)
      else w)"

text \<open>
  The pool: \<open>files\<close> lists the discovered files in the order in which their tasks run to
  completion, which is the order of \<open>diskFiles\<close> when the concurrency is 1. Reading a
  source file (\<open>hashFile\<close>, \<open>fsp.stat\<close>) is taken to succeed.
\<close>

definition run_tasks :: "env \<Rightarrow> meta_index \<Rightarrow> string list \<Rightarrow> world \<Rightarrow> world" where
  "run_tasks env idx files w = foldl (\<lambda>w absPath. task env idx absPath w) w files"

text \<open>The de-duplication loop with its \<open>seen\<close> set; \<open>key_of\<close> is \<open>it.type + "|" + it.src\<close>.\<close>

definition key_of :: "item \<Rightarrow> string" where
  "key_of it = item_type it @ ''|'' @ src it"

fun dedupe :: "string set \<Rightarrow> item list \<Rightarrow> item list" where
  "dedupe seen [] = []"
| "dedupe seen (it # its) =
     (if key_of it \<in> seen then dedupe seen its
      else it # dedupe (insert (key_of it) seen) its)"

text \<open>
  \<open>out.sort((a,b)=>(b.ts||0)-(a.ts||0))\<close>. \<open>Array.prototype.sort\<close> is stable, and for a
  consistent comparator every stable sort gives the same array; insertion from the right
  is one.
\<close>

definition or0 :: "real \<Rightarrow> real" where
  "or0 t = (if t = 0 then 0 else t)"

definition cmp_ts :: "item \<Rightarrow> item \<Rightarrow> real" where
  "cmp_ts a b = or0 (item_ts b) - or0 (item_ts a)"

fun insert_by :: "('a \<Rightarrow> 'a \<Rightarrow> real) \<Rightarrow> 'a \<Rightarrow> 'a list \<Rightarrow> 'a list" where
  "insert_by cmp x [] = [x]"
| "insert_by cmp x (y # ys) =
     (if cmp x y \<le> 0 then x # y # ys else y # insert_by cmp x ys)"

definition sort_by :: "('a \<Rightarrow> 'a \<Rightarrow> real) \<Rightarrow> 'a list \<Rightarrow> 'a list" where
  "sort_by cmp xs = foldr (insert_by cmp) xs []"

definition manifest :: "item list \<Rightarrow> item list" where
  "manifest its = sort_by cmp_ts (dedupe {} its)"

text \<open>A whole run over the discovered files, from a given state of the output directory.\<close>

definition start :: "string set \<Rightarrow> world" where
  "start d = \<lparr>disk = d, calls = [], skiplog = [], items = []\<rparr>"

definition main :: "env \<Rightarrow> meta_index \<Rightarrow> string list \<Rightarrow> string set \<Rightarrow> item list" where
  "main env idx files d = manifest (items (run_tasks env idx files (start d)))"

subsection \<open>The cascade as the specification words it\<close>

text \<open>
  The metadata entry of a file: the entry of its basename if the basename table has one,
  otherwise the entry of the first numeric token of the basename that the token table has.
\<close>

definition lookup_meta :: "meta_index \<Rightarrow> string \<Rightarrow> meta option" where
  "lookup_meta idx base =
     (case byBase idx base of
        Some m \<Rightarrow> Some m
      | None \<Rightarrow>
          (case find (\<lambda>tok. byNumericId idx tok \<noteq> None) (extractNumericTokens base) of
             None \<Rightarrow> None
           | Some tok \<Rightarrow> byNumericId idx tok))"

definition meta_ts :: "meta option \<Rightarrow> jsnum" where
  "meta_ts m = (case m of None \<Rightarrow> Null | Some e \<Rightarrow> ts e)"

text \<open>What the container probe offers: nothing for images, nothing without ffprobe.\<close>

definition probe_cand :: "env \<Rightarrow> string \<Rightarrow> jsnum" where
  "probe_cand env absPath =
     (if isVideo absPath \<and> hasFFPROBE env
      then (case ffprobeCreationTime env absPath of None \<Rightarrow> Null | Some t \<Rightarrow> Num t)
      else Null)"

text \<open>The first plausible candidate of a list, with the stage that offered it.\<close>

fun first_plausible :: "real \<Rightarrow> (jsnum \<times> source) list \<Rightarrow> (real \<times> source) option" where
  "first_plausible now [] = None"
| "first_plausible now ((Num t, s) # cs) =
     (if plausible now (Num t) then Some (t, s) else first_plausible now cs)"
| "first_plausible now ((Null, s) # cs) = first_plausible now cs"
| "first_plausible now ((NonFinite, s) # cs) = first_plausible now cs"

definition spec_cascade :: "env \<Rightarrow> meta_index \<Rightarrow> string \<Rightarrow> real \<times> source" where
  "spec_cascade env idx absPath =
     (let base = basename absPath
      in case first_plausible (NOW env)
                [(meta_ts (lookup_meta idx base),
                  if byBase idx base = None then JsonToken else JsonBasename),
                 (probe_cand env absPath, Ffprobe),
                 (tsFromFolder absPath, FolderDate)] of
           Some r \<Rightarrow> r
         | None \<Rightarrow> (mtimeMs env absPath, Mtime))"

subsection \<open>Calendar instants\<close>

text \<open>
  The instant \<open>Y-M-DThh:00:00Z\<close> counted from the calendar: whole years since 1970, then
  whole months of the year \<open>Y\<close>, then days, then hours.
\<close>

definition year_length :: "int \<Rightarrow> int" where
  "year_length y = (if InLeapYear y then 366 else 365)"

definition month_length :: "int \<Rightarrow> int \<Rightarrow> int" where
  "month_length y m =
     (if m = 2 then (if InLeapYear y then 29 else 28)
      else if m = 4 \<or> m = 6 \<or> m = 9 \<or> m = 11 then 30
      else 31)"

definition utc_instant :: "int \<Rightarrow> int \<Rightarrow> int \<Rightarrow> int \<Rightarrow> int" where
  "utc_instant y m d h =
     ((sum_list (map year_length [1970..y - 1]) + sum_list (map (month_length y) [1..m - 1])
        + (d - 1)) * 24 + h) * 3600000"

subsection \<open>The fallback chain as the specification words it\<close>

text \<open>
  What each of the three stages of the video chain yields when \<open>processVideo\<close> starts in
  state \<open>w\<close>: each stage runs after the failed stages before it.
\<close>

definition transcode_outcome :: "env \<Rightarrow> string \<Rightarrow> string \<Rightarrow> world \<Rightarrow> string option" where
  "transcode_outcome env source outMp4 w = tool env (calls w) (Transcode source outMp4)"

definition remux_outcome :: "env \<Rightarrow> string \<Rightarrow> string \<Rightarrow> world \<Rightarrow> string option" where
  "remux_outcome env source outMp4 w =
     tool env (calls w @ [Transcode source outMp4]) (Remux source outMp4)"

definition synth_outcome :: "env \<Rightarrow> string \<Rightarrow> string \<Rightarrow> world \<Rightarrow> string option" where
  "synth_outcome env source outMp4 w =
     (if hasAudio env source
      then tool env (calls w @ [Transcode source outMp4, Remux source outMp4, ProbeStreams source])
             (Synth source outMp4)
      else Some ''no audio to synth'')"

text \<open>The invocations of the chain, in order, up to its first success or its exhaustion.\<close>

definition chain_calls :: "env \<Rightarrow> string \<Rightarrow> string \<Rightarrow> world \<Rightarrow> call list" where
  "chain_calls env source outMp4 w =
     Transcode source outMp4 #
       (if transcode_outcome env source outMp4 w = None then []
        else Remux source outMp4 #
          (if remux_outcome env source outMp4 w = None then []
           else ProbeStreams source #
             (if hasAudio env source then [Synth source outMp4] else [])))"

fun is_poster_call :: "call \<Rightarrow> bool" where
  "is_poster_call (Poster a b) = True"
| "is_poster_call (SolidPoster a) = True"
| "is_poster_call c = False"

text \<open>The calls a task added to the trace.\<close>

definition new_calls :: "world \<Rightarrow> world \<Rightarrow> call list" where
  "new_calls w w' = drop (length (calls w)) (calls w')"

text \<open>
  The skip-log reason of an exhausted chain: the three failure messages in one line, and
  \<open>None\<close> as soon as one stage succeeds.
\<close>

definition chain_failure :: "env \<Rightarrow> string \<Rightarrow> string \<Rightarrow> world \<Rightarrow> string option" where
  "chain_failure env source outMp4 w =
     (case transcode_outcome env source outMp4 w of
        None \<Rightarrow> None
      | Some e1 \<Rightarrow>
          (case remux_outcome env source outMp4 w of
             None \<Rightarrow> None
           | Some e2 \<Rightarrow>
               (case synth_outcome env source outMp4 w of
                  None \<Rightarrow> None
                | Some e3 \<Rightarrow>
                    Some (''video failed: transcode -> '' @ e1 @ ''; remux -> '' @ e2
                            @ ''; synth -> '' @ e3))))"

text \<open>A successful run of the video chain, whatever becomes of the poster.\<close>

definition chain_ok :: "env \<Rightarrow> string \<Rightarrow> string \<Rightarrow> string \<Rightarrow> world \<Rightarrow> bool" where
  "chain_ok env s om op w =
     (let r = processVideo env s om op w
      in fst r \<and> items (snd r) = items w
         \<and> (skiplog (snd r) = skiplog w \<or>
            skiplog (snd r) = skiplog w @ [(''poster failed; using solid placeholder'', s)])
         \<and> take (length (chain_calls env s om w)) (new_calls w (snd r)) = chain_calls env s om w
         \<and> (\<forall>c\<in>set (drop (length (chain_calls env s om w)) (new_calls w (snd r))).
               is_poster_call c))"

subsection \<open>Runs\<close>

text \<open>The items a file contributes when its processor reports success.\<close>

definition entry :: "env \<Rightarrow> meta_index \<Rightarrow> string \<Rightarrow> item list" where
  "entry env idx absPath =
     (if isImage absPath then [image_item env idx absPath]
      else if isVideo absPath then [video_item env idx absPath]
      else [])"


text \<open>The \<open>(kind, primary output path)\<close> pair of an item.\<close>

definition kind_path :: "item \<Rightarrow> string \<times> string" where
  "kind_path it = (item_type it, src it)"

subsection \<open>Example inputs\<close>

text \<open>
  A run on 2026-11-02 in which every tool succeeds and no file carries a container date.
  The example stems are lower-case words, which \<open>slugify\<close> leaves as they are.
\<close>

definition tools_ok :: "call list \<Rightarrow> call \<Rightarrow> string option" where
  "tools_ok h c = None"

definition hash_ex :: "string \<Rightarrow> string" where
  "hash_ex p = (if basename p = ''a.jpg'' then ''1a2b3c4d'' else ''5e6f7a8b'')"

definition env_ex :: env where
  "env_ex = \<lparr>NOW = 1793577600000, FORCE = False, hasFFPROBE = True, hashFile = hash_ex,
     slugify = (\<lambda>s. s), mtimeMs = (\<lambda>p. 1500000000123), ffprobeCreationTime = (\<lambda>p. None),
     hasAudio = (\<lambda>p. False), tool = tools_ok\<rparr>"

text \<open>
  Two export records: the first is dated 2023-11-14T22:13:20Z, the second has no date and
  references a file whose name is the numeric token of the first record's file.
\<close>

definition idx_two :: meta_index where
  "idx_two = buildMetaIndex
     [\<lparr>rec_ts = Num 1700000000000, rec_caption = ''first'',
        rec_uris = [''x_17900000000.jpg'']\<rparr>,
      \<lparr>rec_ts = Null, rec_caption = ''second'', rec_uris = [''17900000000.jpg'']\<rparr>]"

text \<open>One export record dated 2009-01-01T00:00:00Z.\<close>

definition idx_old :: meta_index where
  "idx_old = buildMetaIndex
     [\<lparr>rec_ts = Num 1230768000000, rec_caption = ''throwback'', rec_uris = [''old.jpg'']\<rparr>]"

text \<open>The record of the end-to-end scenario: \<open>creation_timestamp: 1700000000\<close>.\<close>

definition idx_post :: meta_index where
  "idx_post = buildMetaIndex
     [\<lparr>rec_ts = Num 1700000000000, rec_caption = [],
        rec_uris = [''abc123456789012.jpg'']\<rparr>]"



definition idx_none :: meta_index where
  "idx_none = buildMetaIndex []"

text \<open>Tools that all fail, each with the message the script gives a non-zero exit.\<close>

fun tools_fail :: "call list \<Rightarrow> call \<Rightarrow> string option" where
  "tools_fail h (Resize a b) = Some ''Input file contains unsupported image format''"
| "tools_fail h (Transcode a b) = Some ''encode failed''"
| "tools_fail h (Remux a b) = Some ''remux failed''"
| "tools_fail h (ProbeStreams a) = None"
| "tools_fail h (Synth a b) = Some ''synth failed''"
| "tools_fail h (Poster a b) = Some ''poster failed''"
| "tools_fail h (SolidPoster a) = Some ''solid poster failed''"

text \<open>
  Tools for a video whose transcode works but whose transcoded file yields no frame: frame
  extraction succeeds on the original source only.
\<close>

fun tools_noframe :: "call list \<Rightarrow> call \<Rightarrow> string option" where
  "tools_noframe h (Poster a b) =
     (if a = ''/export/media/reels/202305/clip.mp4'' then None else Some ''poster failed'')"
| "tools_noframe h c = None"

definition env_fail :: env where
  "env_fail = env_ex\<lparr>tool := tools_fail\<rparr>"

definition env_noframe :: env where
  "env_noframe = env_ex\<lparr>tool := tools_noframe\<rparr>"


definition disk_ex :: "string set" where
  "disk_ex = {''assets/media/img/full/a-1a2b3c4d.webp'', ''assets/media/img/thumbs/a-1a2b3c4d.webp'',
              ''assets/media/video/720p/clip-5e6f7a8b.mp4'',
              ''assets/media/video/posters/clip-5e6f7a8b.jpg''}"

section \<open>Properties\<close>

subsection \<open>Resolution\<close>

lemma keep_plausible_Some:
  "keep_plausible now c = Some t \<longleftrightarrow> c = Num t \<and> plausible now c"
  by (cases c) auto

lemma keep_plausible_None:
  "keep_plausible now c = None \<longleftrightarrow> \<not> plausible now c"
  by (cases c) auto

lemma MIN_TS_value: "MIN_TS = 1262304000000"
proof -
  have "Date_UTC 2010 0 1 0 = 1262304000000" by code_simp
  then show ?thesis by (simp add: MIN_TS_def)
qed

lemma MIN_TS_pos: "0 < MIN_TS"
  by (simp add: MIN_TS_value)

lemma falsy_keep_plausible:
  "falsy (keep_plausible now c) \<longleftrightarrow> \<not> plausible now c"
  using MIN_TS_pos by (cases c) auto

lemma first_token_find:
  "first_token idx toks =
     (case find (\<lambda>tok. idx tok \<noteq> None) toks of None \<Rightarrow> None | Some tok \<Rightarrow> idx tok)"
  by (induction toks) (auto split: option.splits)

lemma res_meta_eq: "res_meta (resolveTimestamp env idx p) = lookup_meta idx (basename p)"
  by (simp add: resolveTimestamp_def Let_def lookup_meta_def first_token_find
      split: option.splits prod.splits)

lemma fuzzy_tried_eq: "fuzzy_tried (resolveTimestamp env idx p) = (byBase idx (basename p) = None)"
  by (simp add: resolveTimestamp_def Let_def split: prod.splits)

lemma probe_called_eq:
  "probe_called (resolveTimestamp env idx p) =
     (\<not> plausible (NOW env) (meta_ts (lookup_meta idx (basename p))) \<and> isVideo p \<and> hasFFPROBE env)"
  by (simp add: resolveTimestamp_def Let_def lookup_meta_def meta_ts_def falsy_keep_plausible
      first_token_find split: prod.splits option.splits)

lemma first_plausible_Cons:
  "first_plausible now ((c, s) # cs) =
     (case keep_plausible now c of Some t \<Rightarrow> Some (t, s) | None \<Rightarrow> first_plausible now cs)"
  by (cases c) auto

lemma resolve_ts_source:
  "(res_ts (resolveTimestamp env idx p), res_source (resolveTimestamp env idx p)) =
     spec_cascade env idx p"
proof -
  let ?m = "lookup_meta idx (basename p)"
  have m: "(if byBase idx (basename p) = None
            then first_token (byNumericId idx) (extractNumericTokens (basename p))
            else byBase idx (basename p)) = ?m"
    by (simp add: lookup_meta_def first_token_find split: option.splits)
  have mt: "(case ?m of None \<Rightarrow> Null | Some e \<Rightarrow> ts e) = meta_ts ?m"
    by (simp add: meta_ts_def)
  have pc: "(if isVideo p \<and> hasFFPROBE env
             then keep_plausible (NOW env)
                    (case ffprobeCreationTime env p of None \<Rightarrow> Null | Some t \<Rightarrow> Num t)
             else None) = keep_plausible (NOW env) (probe_cand env p)"
    by (simp add: probe_cand_def)
  show ?thesis
  proof (cases "keep_plausible (NOW env) (meta_ts ?m)")
    case (Some t)
    then show ?thesis
      by (simp add: resolveTimestamp_def spec_cascade_def Let_def m mt first_plausible_Cons)
  next
    case None
    then show ?thesis
      by (simp add: resolveTimestamp_def spec_cascade_def Let_def m mt pc first_plausible_Cons
          split: option.splits)
  qed
qed

subsection \<open>Calendar\<close>

lemma div_step:
  fixes a n :: int
  assumes "0 < n"
  shows "(a + 1) div n = a div n + (if (a + 1) mod n = 0 then 1 else 0)"
proof -
  define q where "q = a div n"
  define r where "r = a mod n"
  have a: "a = q * n + r" by (simp add: q_def r_def)
  have r: "0 \<le> r" "r < n" using assms by (simp_all add: r_def)
  show ?thesis
  proof (cases "r = n - 1")
    case True
    then have "a + 1 = (q + 1) * n" using a by (simp add: algebra_simps)
    then show ?thesis using assms by (simp add: q_def)
  next
    case False
    then have r1: "0 \<le> r + 1" "r + 1 < n" using r by auto
    have e: "a + 1 = q * n + (r + 1)" using a by simp
    have "(a + 1) div n = q" "(a + 1) mod n = r + 1"
      unfolding e using r1 assms by simp_all
    then show ?thesis using r by (simp add: q_def)
  qed
qed

lemma mod_shift:
  fixes y :: int
  shows "(y - 1968) mod 4 = y mod 4" "(y - 1900) mod 100 = y mod 100"
    "(y - 1600) mod 400 = y mod 400"
proof -
  have "(y + 4 * (- 492)) mod 4 = y mod 4" by (rule mod_mult_self2)
  then show "(y - 1968) mod 4 = y mod 4" by simp
  have "(y + 100 * (- 19)) mod 100 = y mod 100" by (rule mod_mult_self2)
  then show "(y - 1900) mod 100 = y mod 100" by simp
  have "(y + 400 * (- 4)) mod 400 = y mod 400" by (rule mod_mult_self2)
  then show "(y - 1600) mod 400 = y mod 400" by simp
qed

lemma mod_chain:
  fixes y :: int
  shows "y mod 400 = 0 \<Longrightarrow> y mod 100 = 0" "y mod 100 = 0 \<Longrightarrow> y mod 4 = 0"
proof -
  have d1: "(100::int) dvd 400" and d2: "(4::int) dvd 100" by simp_all
  show "y mod 400 = 0 \<Longrightarrow> y mod 100 = 0"
    using dvd_trans [OF d1, of y] by (simp add: mod_eq_0_iff_dvd)
  show "y mod 100 = 0 \<Longrightarrow> y mod 4 = 0"
    using dvd_trans [OF d2, of y] by (simp add: mod_eq_0_iff_dvd)
qed

lemma DayFromYear_step: "DayFromYear (y + 1) = DayFromYear y + year_length y"
proof -
  have a: "(y + 1 - 1969) div 4 = (y - 1969) div 4 + (if y mod 4 = 0 then 1 else 0)"
    using div_step [of 4 "y - 1969"] mod_shift(1) [of y] by (simp add: algebra_simps)
  have b: "(y + 1 - 1901) div 100 = (y - 1901) div 100 + (if y mod 100 = 0 then 1 else 0)"
    using div_step [of 100 "y - 1901"] mod_shift(2) [of y] by (simp add: algebra_simps)
  have c: "(y + 1 - 1601) div 400 = (y - 1601) div 400 + (if y mod 400 = 0 then 1 else 0)"
    using div_step [of 400 "y - 1601"] mod_shift(3) [of y] by (simp add: algebra_simps)
  show ?thesis
    unfolding DayFromYear_def year_length_def InLeapYear_def a b c
    using mod_chain [of y] by auto
qed

lemma DayFromYear_sum:
  "1970 \<le> y \<Longrightarrow> DayFromYear y = sum_list (map year_length [1970..y - 1])"
proof (induction y rule: int_ge_induct)
  case base
  show ?case by (simp add: DayFromYear_def)
next
  case (step i)
  have "[1970..i + 1 - 1] = [1970..i - 1] @ [i]"
    using step.hyps upto_rec2 [of 1970 i] by simp
  with step.IH show ?case
    by (simp add: DayFromYear_step)
qed

lemma upto_1_12:
  "[1..0] = []" "[1..1] = [1]" "[1..2] = [1, 2]" "[1..3] = [1, 2, 3]" "[1..4] = [1, 2, 3, 4]"
  "[1..5] = [1, 2, 3, 4, 5]" "[1..6] = [1, 2, 3, 4, 5, 6]" "[1..7] = [1, 2, 3, 4, 5, 6, 7]"
  "[1..8] = [1, 2, 3, 4, 5, 6, 7, 8]" "[1..9] = [1, 2, 3, 4, 5, 6, 7, 8, 9]"
  "[1..10] = [1, 2, 3, 4, 5, 6, 7, 8, 9, 10]" "[1..11] = [1, 2, 3, 4, 5, 6, 7, 8, 9, 10, 11]"
  by code_simp+

lemma DaysBeforeMonth_sum:
  assumes "1 \<le> m" "m \<le> 12"
  shows "DaysBeforeMonth y (nat (m - 1)) = sum_list (map (month_length y) [1..m - 1])"
proof -
  from assms have "m = 1 \<or> m = 2 \<or> m = 3 \<or> m = 4 \<or> m = 5 \<or> m = 6 \<or> m = 7 \<or> m = 8
      \<or> m = 9 \<or> m = 10 \<or> m = 11 \<or> m = 12"
    by arith
  then show ?thesis
    by (elim disjE) (simp_all add: DaysBeforeMonth_def month_length_def upto_1_12)
qed

lemma Date_UTC_utc_instant:
  assumes "1970 \<le> y" "1 \<le> m" "m \<le> 12"
  shows "Date_UTC y (m - 1) d h = utc_instant y m d h"
proof -
  from assms have "(m - 1) div 12 = 0" "(m - 1) mod 12 = m - 1" by simp_all
  with assms show ?thesis
    by (simp add: Date_UTC_def MakeDay_def Let_def utc_instant_def DayFromYear_sum
        DaysBeforeMonth_sum algebra_simps)
qed

subsection \<open>Tool invocations\<close>

lemma invoke_None:
  "tool env (calls w) c = None \<Longrightarrow>
     invoke env c out w = (None, w\<lparr>disk := insert out (disk w), calls := calls w @ [c]\<rparr>)"
  by (simp add: invoke_def)

lemma invoke_Some:
  "tool env (calls w) c = Some e \<Longrightarrow> invoke env c out w = (Some e, w\<lparr>calls := calls w @ [c]\<rparr>)"
  by (simp add: invoke_def)

lemma invoke_fields:
  "fst (invoke env c out w) = tool env (calls w) c"
  "calls (snd (invoke env c out w)) = calls w @ [c]"
  "items (snd (invoke env c out w)) = items w"
  "skiplog (snd (invoke env c out w)) = skiplog w"
  by (simp_all add: invoke_def split: option.splits)

lemma logSkip_fields:
  "calls (logSkip p r w) = calls w"
  "items (logSkip p r w) = items w"
  "skiplog (logSkip p r w) = skiplog w @ [(r, p)]"
  "disk (logSkip p r w) = disk w"
  by (simp_all add: logSkip_def)

lemma tryMakePoster_fields:
  "items (snd (tryMakePoster env f out w)) = items w"
  "skiplog (snd (tryMakePoster env f out w)) = skiplog w"
  "\<exists>ps. calls (snd (tryMakePoster env f out w)) = calls w @ ps \<and> (\<forall>c\<in>set ps. is_poster_call c)"
  by (cases "tool env (calls w) (Poster f out)";
      cases "tool env (calls w @ [Poster f out]) (SolidPoster out)";
      simp add: tryMakePoster_def invoke_None invoke_Some)+

lemma poster_step_fields:
  "fst (poster_step env s om op w) = True"
  "items (snd (poster_step env s om op w)) = items w"
  "skiplog (snd (poster_step env s om op w)) = skiplog w \<or>
   skiplog (snd (poster_step env s om op w)) =
     skiplog w @ [(''poster failed; using solid placeholder'', s)]"
  "\<exists>ps. calls (snd (poster_step env s om op w)) = calls w @ ps \<and> (\<forall>c\<in>set ps. is_poster_call c)"
proof -
  obtain ok1 w1 where t1: "tryMakePoster env om op w = (ok1, w1)" by force
  obtain ok2 w2 where t2: "tryMakePoster env s op w1 = (ok2, w2)" by force
  obtain r3 w4 where i3: "invoke env (SolidPoster op) op
      (logSkip s ''poster failed; using solid placeholder'' w2) = (r3, w4)" by force
  have f1: "items w1 = items w" "skiplog w1 = skiplog w"
    using tryMakePoster_fields(1,2) [of env om op w] t1 by simp_all
  obtain ps1 where c1: "calls w1 = calls w @ ps1" "\<forall>c\<in>set ps1. is_poster_call c"
    using tryMakePoster_fields(3) [of env om op w] t1 by auto
  have f2: "items w2 = items w" "skiplog w2 = skiplog w"
    using tryMakePoster_fields(1,2) [of env s op w1] t2 f1 by simp_all
  obtain ps2 where c2: "calls w2 = calls w1 @ ps2" "\<forall>c\<in>set ps2. is_poster_call c"
    using tryMakePoster_fields(3) [of env s op w1] t2 by auto
  have f4: "items w4 = items w"
    "skiplog w4 = skiplog w @ [(''poster failed; using solid placeholder'', s)]"
    "calls w4 = calls w2 @ [SolidPoster op]"
    using invoke_fields(2,3,4) [of env "SolidPoster op" op
        "logSkip s ''poster failed; using solid placeholder'' w2"] i3 f2
    by (simp_all add: logSkip_fields)
  show "fst (poster_step env s om op w) = True"
    by (simp add: poster_step_def t1 t2 i3 Let_def)
  show "items (snd (poster_step env s om op w)) = items w"
    by (simp add: poster_step_def t1 t2 i3 Let_def f1 f2 f4)
  show "skiplog (snd (poster_step env s om op w)) = skiplog w \<or>
   skiplog (snd (poster_step env s om op w)) =
     skiplog w @ [(''poster failed; using solid placeholder'', s)]"
    by (simp add: poster_step_def t1 t2 i3 Let_def f1 f2 f4)
  show "\<exists>ps. calls (snd (poster_step env s om op w)) = calls w @ ps \<and> (\<forall>c\<in>set ps. is_poster_call c)"
  proof (cases ok1)
    case True
    then show ?thesis using c1 by (simp add: poster_step_def t1 Let_def)
  next
    case False
    note nok1 = this
    show ?thesis
    proof (cases ok2)
      case True
      have "calls w2 = calls w @ (ps1 @ ps2)" using c1 c2 by simp
      moreover have "\<forall>c\<in>set (ps1 @ ps2). is_poster_call c" using c1 c2 by auto
      ultimately show ?thesis using nok1 True
        by (simp only: poster_step_def t1 t2 Let_def split if_False if_True not_True_eq_False snd_conv)
          blast
    next
      case False
      have "calls w4 = calls w @ (ps1 @ ps2 @ [SolidPoster op])" using c1 c2 f4 by simp
      moreover have "\<forall>c\<in>set (ps1 @ ps2 @ [SolidPoster op]). is_poster_call c" using c1 c2 by auto
      ultimately show ?thesis using nok1 False
        by (simp only: poster_step_def t1 t2 i3 Let_def split if_False if_True not_False_eq_True snd_conv)
          blast
    qed
  qed
qed


subsection \<open>The video chain\<close>

lemma poster_step_after:
  assumes "calls w1 = calls w @ pre" "items w1 = items w" "skiplog w1 = skiplog w"
  shows "fst (poster_step env s om op w1) = True"
    and "items (snd (poster_step env s om op w1)) = items w"
    and "skiplog (snd (poster_step env s om op w1)) = skiplog w \<or>
         skiplog (snd (poster_step env s om op w1)) =
           skiplog w @ [(''poster failed; using solid placeholder'', s)]"
    and "take (length pre) (new_calls w (snd (poster_step env s om op w1))) = pre"
    and "\<forall>c\<in>set (drop (length pre) (new_calls w (snd (poster_step env s om op w1)))).
           is_poster_call c"
proof -
  obtain ps where ps: "calls (snd (poster_step env s om op w1)) = calls w1 @ ps"
      "\<forall>c\<in>set ps. is_poster_call c"
    using poster_step_fields(4) [of env s om op w1] by auto
  then have n: "new_calls w (snd (poster_step env s om op w1)) = pre @ ps"
    by (simp add: new_calls_def assms(1))
  show "fst (poster_step env s om op w1) = True" by (rule poster_step_fields(1))
  show "items (snd (poster_step env s om op w1)) = items w"
    by (simp add: poster_step_fields(2) assms(2))
  show "skiplog (snd (poster_step env s om op w1)) = skiplog w \<or>
         skiplog (snd (poster_step env s om op w1)) =
           skiplog w @ [(''poster failed; using solid placeholder'', s)]"
    using poster_step_fields(3) [of env s om op w1] by (simp add: assms(3))
  show "take (length pre) (new_calls w (snd (poster_step env s om op w1))) = pre"
    by (simp add: n)
  show "\<forall>c\<in>set (drop (length pre) (new_calls w (snd (poster_step env s om op w1)))).
           is_poster_call c"
    using ps(2) by (simp add: n)
qed

lemma processVideo_run:
  assumes "\<not> (\<not> FORCE env \<and> om \<in> disk w \<and> op \<in> disk w)"
  shows "processVideo env s om op w =
     (case invoke env (Transcode s om) om w of
        (None, w1) \<Rightarrow> poster_step env s om op w1
      | (Some e1, w1) \<Rightarrow>
          (case invoke env (Remux s om) om w1 of
             (None, w2) \<Rightarrow> poster_step env s om op w2
           | (Some e2, w2) \<Rightarrow>
               (case synth env s om w2 of
                  (None, w3) \<Rightarrow> poster_step env s om op w3
                | (Some e3, w3) \<Rightarrow>
                    (False,
                     logSkip s
                       (''video failed: transcode -> '' @ e1 @ ''; remux -> '' @ e2
                          @ ''; synth -> '' @ e3) w3))))"
  unfolding processVideo_def by (rule if_not_P [OF assms])

lemma chain_transcode_ok:
  assumes ns: "\<not> (\<not> FORCE env \<and> om \<in> disk w \<and> op \<in> disk w)"
    and t: "transcode_outcome env s om w = None"
  shows "chain_ok env s om op w"
proof -
  let ?w1 = "w\<lparr>disk := insert om (disk w), calls := calls w @ [Transcode s om]\<rparr>"
  have pv: "processVideo env s om op w = poster_step env s om op ?w1"
    using t by (simp add: processVideo_run [OF ns] transcode_outcome_def invoke_None)
  have cc: "chain_calls env s om w = [Transcode s om]"
    using t by (simp add: chain_calls_def)
  show ?thesis
    unfolding chain_ok_def Let_def pv cc
    using poster_step_after [of ?w1 w "[Transcode s om]" env s om op] by simp
qed

lemma chain_remux_ok:
  assumes ns: "\<not> (\<not> FORCE env \<and> om \<in> disk w \<and> op \<in> disk w)"
    and t: "transcode_outcome env s om w = Some e1"
    and r: "remux_outcome env s om w = None"
  shows "chain_ok env s om op w"
proof -
  let ?w2 = "w\<lparr>calls := calls w @ [Transcode s om], disk := insert om (disk w),
               calls := calls w @ [Transcode s om] @ [Remux s om]\<rparr>"
  have pv: "processVideo env s om op w = poster_step env s om op ?w2"
    using t r
    by (simp add: processVideo_run [OF ns] transcode_outcome_def remux_outcome_def invoke_None
        invoke_Some)
  have cc: "chain_calls env s om w = [Transcode s om, Remux s om]"
    using t r by (simp add: chain_calls_def)
  show ?thesis
    unfolding chain_ok_def Let_def pv cc
    using poster_step_after [of ?w2 w "[Transcode s om, Remux s om]" env s om op] by simp
qed

lemma chain_synth_ok:
  assumes ns: "\<not> (\<not> FORCE env \<and> om \<in> disk w \<and> op \<in> disk w)"
    and t: "transcode_outcome env s om w = Some e1"
    and r: "remux_outcome env s om w = Some e2"
    and y: "synth_outcome env s om w = None"
  shows "chain_ok env s om op w"
proof -
  from y have a: "hasAudio env s"
    and y': "tool env (calls w @ [Transcode s om, Remux s om, ProbeStreams s]) (Synth s om) = None"
    by (auto simp: synth_outcome_def split: if_splits)
  let ?w3 = "w\<lparr>calls := calls w @ [Transcode s om], calls := calls w @ [Transcode s om] @ [Remux s om],
               calls := calls w @ [Transcode s om] @ [Remux s om] @ [ProbeStreams s],
               disk := insert om (disk w),
               calls := calls w @ [Transcode s om] @ [Remux s om] @ [ProbeStreams s] @ [Synth s om]\<rparr>"
  have pv: "processVideo env s om op w = poster_step env s om op ?w3"
    using t r a y'
    by (simp add: processVideo_run [OF ns] transcode_outcome_def remux_outcome_def synth_def Let_def
        invoke_None invoke_Some)
  have cc: "chain_calls env s om w = [Transcode s om, Remux s om, ProbeStreams s, Synth s om]"
    using t r a by (simp add: chain_calls_def)
  show ?thesis
    unfolding chain_ok_def Let_def pv cc
    using poster_step_after [of ?w3 w "[Transcode s om, Remux s om, ProbeStreams s, Synth s om]"
        env s om op] by simp
qed

lemma chain_exhausted:
  assumes ns: "\<not> (\<not> FORCE env \<and> om \<in> disk w \<and> op \<in> disk w)"
    and t: "transcode_outcome env s om w = Some e1"
    and r: "remux_outcome env s om w = Some e2"
    and y: "synth_outcome env s om w = Some e3"
  shows "fst (processVideo env s om op w) = False"
    and "items (snd (processVideo env s om op w)) = items w"
    and "skiplog (snd (processVideo env s om op w)) =
           skiplog w @ [(''video failed: transcode -> '' @ e1 @ ''; remux -> '' @ e2
                           @ ''; synth -> '' @ e3, s)]"
    and "new_calls w (snd (processVideo env s om op w)) = chain_calls env s om w"
proof -
  have cc: "chain_calls env s om w =
      [Transcode s om, Remux s om, ProbeStreams s] @ (if hasAudio env s then [Synth s om] else [])"
    using t r by (simp add: chain_calls_def)
  let ?w2 = "w\<lparr>calls := calls w @ [Transcode s om], calls := calls w @ [Transcode s om] @ [Remux s om]\<rparr>"
  have sy: "synth env s om ?w2 =
      (Some e3, w\<lparr>calls := calls w @ [Transcode s om, Remux s om, ProbeStreams s]
                     @ (if hasAudio env s then [Synth s om] else [])\<rparr>)"
    using y by (auto simp: synth_def synth_outcome_def Let_def invoke_Some split: if_splits)
  have pv: "processVideo env s om op w =
      (False, logSkip s (''video failed: transcode -> '' @ e1 @ ''; remux -> '' @ e2
                           @ ''; synth -> '' @ e3)
         (w\<lparr>calls := calls w @ [Transcode s om, Remux s om, ProbeStreams s]
                     @ (if hasAudio env s then [Synth s om] else [])\<rparr>))"
    using t r sy
    by (simp add: processVideo_run [OF ns] transcode_outcome_def remux_outcome_def invoke_Some)
  show "fst (processVideo env s om op w) = False" by (simp add: pv)
  show "items (snd (processVideo env s om op w)) = items w" by (simp add: pv logSkip_fields)
  show "skiplog (snd (processVideo env s om op w)) =
           skiplog w @ [(''video failed: transcode -> '' @ e1 @ ''; remux -> '' @ e2
                           @ ''; synth -> '' @ e3, s)]"
    by (simp add: pv logSkip_fields)
  show "new_calls w (snd (processVideo env s om op w)) = chain_calls env s om w"
    by (simp add: pv logSkip_fields new_calls_def cc)
qed

lemma processVideo_skip:
  "\<not> FORCE env \<Longrightarrow> om \<in> disk w \<Longrightarrow> op \<in> disk w \<Longrightarrow> processVideo env s om op w = (True, w)"
  by (simp add: processVideo_def)


lemma processImage_items: "items (snd (processImage env s ofull othumb w)) = items w"
  by (cases "tool env (calls w) (Resize s ofull)";
      cases "tool env (calls w @ [Resize s ofull]) (Resize s othumb)")
    (simp_all add: processImage_def invoke_None invoke_Some logSkip_fields)

lemma processVideo_items: "items (snd (processVideo env s om op w)) = items w"
proof (cases "\<not> FORCE env \<and> om \<in> disk w \<and> op \<in> disk w")
  case True
  then show ?thesis by (simp add: processVideo_skip)
next
  case ns: False
  show ?thesis
  proof (cases "transcode_outcome env s om w")
    case None
    from chain_transcode_ok [OF ns None] show ?thesis by (simp add: chain_ok_def Let_def)
  next
    case t: (Some e1)
    show ?thesis
    proof (cases "remux_outcome env s om w")
      case None
      from chain_remux_ok [OF ns t None] show ?thesis by (simp add: chain_ok_def Let_def)
    next
      case r: (Some e2)
      show ?thesis
      proof (cases "synth_outcome env s om w")
        case None
        from chain_synth_ok [OF ns t r None] show ?thesis by (simp add: chain_ok_def Let_def)
      next
        case (Some e3)
        from chain_exhausted(2) [OF ns t r Some] show ?thesis .
      qed
    qed
  qed
qed


subsection \<open>The task\<close>

lemma video_not_image: "isVideo p \<Longrightarrow> \<not> isImage p"
  by (auto simp: isVideo_def isImage_def VIDEO_EXTS_def IMAGE_EXTS_def)

lemma task_image:
  "isImage p \<Longrightarrow> task env idx p w =
     (let r = processImage env p (outFull_of env p) (outThumb_of env p) w
      in if fst r then (snd r)\<lparr>items := items (snd r) @ [image_item env idx p]\<rparr> else snd r)"
  by (simp add: task_def Let_def split: prod.splits)

lemma task_video:
  "isVideo p \<Longrightarrow> task env idx p w =
     (let r = processVideo env p (outMp4_of env p) (outPoster_of env p) w
      in if fst r then (snd r)\<lparr>items := items (snd r) @ [video_item env idx p]\<rparr> else snd r)"
  by (simp add: task_def Let_def video_not_image split: prod.splits)

lemma task_other: "\<not> isImage p \<Longrightarrow> \<not> isVideo p \<Longrightarrow> task env idx p w = w"
  by (simp add: task_def)

lemma task_items:
  "items (task env idx p w) = items w \<or> items (task env idx p w) = items w @ entry env idx p"
proof (cases "isImage p")
  case True
  then show ?thesis
    by (simp add: task_image Let_def entry_def processImage_items)
next
  case ni: False
  show ?thesis
  proof (cases "isVideo p")
    case True
    then show ?thesis
      by (simp add: task_video Let_def entry_def ni processVideo_items)
  next
    case False
    with ni show ?thesis by (simp add: task_other)
  qed
qed


lemma run_tasks_Cons: "run_tasks env idx (p # ps) w = run_tasks env idx ps (task env idx p w)"
  by (simp add: run_tasks_def)


subsection \<open>De-duplication and sorting\<close>

lemma dedupe_keys:
  "set (map key_of (dedupe seen its)) = set (map key_of its) - seen"
  by (induction its arbitrary: seen) auto

lemma dedupe_subset: "set (dedupe seen its) \<subseteq> set its"
  by (induction its arbitrary: seen) auto

lemma dedupe_distinct: "distinct (map key_of (dedupe seen its))"
proof (induction its arbitrary: seen)
  case Nil
  show ?case by simp
next
  case (Cons it its)
  have "key_of it \<notin> set (map key_of (dedupe (insert (key_of it) seen) its))"
    unfolding dedupe_keys by simp
  with Cons.IH show ?case
    by simp
qed

lemma dedupe_first:
  "it \<in> set (dedupe seen its) \<Longrightarrow> find (\<lambda>x. key_of x = key_of it) its = Some it"
proof (induction its arbitrary: seen)
  case Nil
  then show ?case by simp
next
  case (Cons a its)
  show ?case
  proof (cases "key_of a \<in> seen")
    case True
    with Cons.prems have m: "it \<in> set (dedupe seen its)"
      by simp
    then have "key_of it \<in> set (map key_of (dedupe seen its))" by simp
    then have "key_of it \<notin> seen" unfolding dedupe_keys by simp
    with True have "key_of a \<noteq> key_of it" by auto
    with Cons.IH [OF m] show ?thesis by simp
  next
    case False
    with Cons.prems have "it = a \<or> it \<in> set (dedupe (insert (key_of a) seen) its)"
      by simp
    then show ?thesis
    proof
      assume "it = a"
      then show ?thesis by simp
    next
      assume m: "it \<in> set (dedupe (insert (key_of a) seen) its)"
      then have "key_of it \<in> set (map key_of (dedupe (insert (key_of a) seen) its))" by simp
      then have "key_of it \<noteq> key_of a" unfolding dedupe_keys by auto
      with Cons.IH [OF m] show ?thesis by simp
    qed
  qed
qed

lemma set_insert_by: "set (insert_by cmp x ys) = insert x (set ys)"
  by (induction ys) auto

lemma set_sort_by: "set (sort_by cmp xs) = set xs"
  by (induction xs) (simp_all add: sort_by_def set_insert_by)

lemma distinct_map_insert_by:
  "distinct (map f (insert_by cmp x ys)) = (f x \<notin> f ` set ys \<and> distinct (map f ys))"
  by (induction ys) (auto simp: set_insert_by)

lemma distinct_map_sort_by: "distinct (map f (sort_by cmp xs)) = distinct (map f xs)"
  by (induction xs) (simp_all add: sort_by_def distinct_map_insert_by set_sort_by [unfolded sort_by_def])

lemma sorted_insert_by:
  assumes "sorted_wrt (\<lambda>a b. item_ts b \<le> item_ts a) ys"
  shows "sorted_wrt (\<lambda>a b. item_ts b \<le> item_ts a) (insert_by cmp_ts x ys)"
  using assms by (induction ys) (auto simp: set_insert_by cmp_ts_def or0_def)

lemma sorted_sort_by: "sorted_wrt (\<lambda>a b. item_ts b \<le> item_ts a) (sort_by cmp_ts xs)"
  by (induction xs) (simp_all add: sort_by_def sorted_insert_by)

lemma manifest_descending: "sorted_wrt (\<lambda>a b. item_ts b \<le> item_ts a) (manifest its)"
  by (simp add: manifest_def sorted_sort_by)

lemma set_manifest: "set (manifest its) = set (dedupe {} its)"
  by (simp add: manifest_def set_sort_by)

lemma key_of_kind_path:
  assumes "item_type a = ''image'' \<or> item_type a = ''video''"
    and "item_type b = ''image'' \<or> item_type b = ''video''"
  shows "(key_of a = key_of b) = (kind_path a = kind_path b)"
  using assms by (auto simp: key_of_def kind_path_def)

section \<open>The claims of the specification\<close>

subsection \<open>The timestamp cascade\<close>

lemma first_plausible_sound:
  "first_plausible now cs = Some (t, s) \<Longrightarrow> plausible now (Num t) \<and> s \<in> snd ` set cs"
proof (induction cs)
  case Nil
  then show ?case by simp
next
  case (Cons c cs)
  obtain v s0 where c: "c = (v, s0)" by (cases c)
  show ?case
  proof (cases "keep_plausible now v")
    case None
    with Cons show ?thesis by (auto simp: c first_plausible_Cons)
  next
    case (Some u)
    with Cons.prems have "t = u" "s = s0" by (simp_all add: c first_plausible_Cons)
    moreover from Some have "v = Num u" "plausible now v"
      unfolding keep_plausible_Some by blast+
    ultimately have "plausible now (Num t)" "s = snd c" by (simp_all add: c)
    then show ?thesis by simp
  qed
qed

lemma spec_cascade_cases:
  "(plausible (NOW env) (Num (fst (spec_cascade env idx p))) \<and> snd (spec_cascade env idx p) \<noteq> Mtime)
   \<or> spec_cascade env idx p = (mtimeMs env p, Mtime)"
proof -
  let ?cs = "[(meta_ts (lookup_meta idx (basename p)),
               if byBase idx (basename p) = None then JsonToken else JsonBasename),
              (probe_cand env p, Ffprobe), (tsFromFolder p, FolderDate)]"
  show ?thesis
  proof (cases "first_plausible (NOW env) ?cs")
    case None
    then show ?thesis by (simp add: spec_cascade_def Let_def)
  next
    case (Some r)
    obtain t s where r: "r = (t, s)" by (cases r)
    from first_plausible_sound [OF Some [unfolded r]]
    have "plausible (NOW env) (Num t)" "s \<noteq> Mtime" by (auto split: if_splits)
    with Some r show ?thesis by (simp add: spec_cascade_def Let_def)
  qed
qed

text \<open>
  Claim C1, as the code has it. The metadata entry of a file is the entry of its basename
  if the basename table has one, and otherwise the entry of the first numeric token of the
  basename (in the order the tokens appear) that the token table has. The token lookup is
  attempted exactly when the basename table has no entry for the basename: an entry whose
  timestamp is \<open>null\<close> or implausible still suppresses it. The container probe is called
  exactly when the metadata entry gave no plausible timestamp, the file is a video and
  ffprobe is present. The resolved timestamp is the first plausible candidate in the order
  metadata entry, container probe, folder date, and the modification time when none is
  plausible.
\<close>

theorem C1_cascade_order:
  "fuzzy_tried (resolveTimestamp env idx p) = (byBase idx (basename p) = None)
   \<and> res_meta (resolveTimestamp env idx p) = lookup_meta idx (basename p)
   \<and> probe_called (resolveTimestamp env idx p) =
       (\<not> plausible (NOW env) (meta_ts (lookup_meta idx (basename p)))
        \<and> isVideo p \<and> hasFFPROBE env)
   \<and> (res_ts (resolveTimestamp env idx p), res_source (resolveTimestamp env idx p)) =
       spec_cascade env idx p"
  by (simp add: fuzzy_tried_eq res_meta_eq probe_called_eq resolve_ts_source)

theorem C1_cascade_order_witness:
  "byBase idx_two (basename ''/export/media/reels/202305/clip_17900000000.mp4'') = None
   \<and> fuzzy_tried (resolveTimestamp env_ex idx_two ''/export/media/reels/202305/clip_17900000000.mp4'')
   \<and> res_ts (resolveTimestamp env_ex idx_two ''/export/media/reels/202305/clip_17900000000.mp4'')
       = 1700000000000
   \<and> res_source (resolveTimestamp env_ex idx_two ''/export/media/reels/202305/clip_17900000000.mp4'')
       = JsonToken"
proof -
  have a: "byBase idx_two (basename ''/export/media/reels/202305/clip_17900000000.mp4'') = None"
    by code_simp
  have b: "spec_cascade env_ex idx_two ''/export/media/reels/202305/clip_17900000000.mp4''
      = (1700000000000, JsonToken)"
    by code_simp
  from C1_cascade_order [of env_ex idx_two "''/export/media/reels/202305/clip_17900000000.mp4''"]
    a b
  show ?thesis by simp
qed

theorem C1_fuzzy_after_implausible_exact_counterexample:
  "byBase idx_two (basename ''/export/media/other/17900000000.jpg'')
     = Some \<lparr>ts = Null, caption = ''second''\<rparr>
   \<and> \<not> plausible (NOW env_ex) Null
   \<and> extractNumericTokens (basename ''/export/media/other/17900000000.jpg'') = [''17900000000'']
   \<and> byNumericId idx_two ''17900000000'' = Some \<lparr>ts = Num 1700000000000, caption = ''first''\<rparr>
   \<and> plausible (NOW env_ex) (Num 1700000000000)
   \<and> \<not> fuzzy_tried (resolveTimestamp env_ex idx_two ''/export/media/other/17900000000.jpg'')
   \<and> res_source (resolveTimestamp env_ex idx_two ''/export/media/other/17900000000.jpg'') = Mtime
   \<and> res_ts (resolveTimestamp env_ex idx_two ''/export/media/other/17900000000.jpg'')
       = 1500000000123"
  by code_simp

text \<open>
  Claim C2. Whenever the resolved timestamp comes from a stage other than the
  modification-time fallback it is plausible: a finite number, not before
  2010-01-01T00:00:00Z and not more than three days after the start of the run. Hence a
  resolved timestamp that is 0, earlier than 2010 or more than three days ahead is the
  file's modification time.
\<close>

theorem C2_plausible_unless_mtime:
  "(res_source (resolveTimestamp env idx p) \<noteq> Mtime \<longrightarrow>
      plausible (NOW env) (Num (res_ts (resolveTimestamp env idx p)))
      \<and> of_int (utc_instant 2010 1 1 0) \<le> res_ts (resolveTimestamp env idx p)
      \<and> res_ts (resolveTimestamp env idx p) \<le> NOW env + 3 * 24 * 3600 * 1000)
   \<and> (res_ts (resolveTimestamp env idx p) = 0
        \<or> res_ts (resolveTimestamp env idx p) < of_int (utc_instant 2010 1 1 0)
        \<or> res_ts (resolveTimestamp env idx p) > NOW env + 3 * 24 * 3600 * 1000 \<longrightarrow>
      res_source (resolveTimestamp env idx p) = Mtime
      \<and> res_ts (resolveTimestamp env idx p) = mtimeMs env p)"
proof -
  have m: "of_int (utc_instant 2010 1 1 0) = MIN_TS"
  proof -
    have "utc_instant 2010 1 1 0 = 1262304000000" by code_simp
    then show ?thesis by (simp add: MIN_TS_value)
  qed
  have e: "spec_cascade env idx p =
      (res_ts (resolveTimestamp env idx p), res_source (resolveTimestamp env idx p))"
    by (simp add: resolve_ts_source)
  from spec_cascade_cases [of env idx p] MIN_TS_pos show ?thesis
    unfolding e m by (auto simp: MAX_TS_def)
qed

theorem C2_plausible_unless_mtime_witness:
  "res_source (resolveTimestamp env_ex idx_none ''/export/media/posts/202305/a.jpg'') \<noteq> Mtime
   \<and> plausible (NOW env_ex)
       (Num (res_ts (resolveTimestamp env_ex idx_none ''/export/media/posts/202305/a.jpg'')))
   \<and> res_ts (resolveTimestamp (env_ex\<lparr>mtimeMs := (\<lambda>p. 0)\<rparr>) idx_none ''/export/media/other/a.jpg'') = 0
   \<and> res_source (resolveTimestamp (env_ex\<lparr>mtimeMs := (\<lambda>p. 0)\<rparr>) idx_none
        ''/export/media/other/a.jpg'') = Mtime"
proof -
  have a: "res_source (resolveTimestamp env_ex idx_none ''/export/media/posts/202305/a.jpg'') \<noteq> Mtime"
    by code_simp
  have b: "res_ts (resolveTimestamp (env_ex\<lparr>mtimeMs := (\<lambda>p. 0)\<rparr>) idx_none
      ''/export/media/other/a.jpg'') = 0"
    by code_simp
  from C2_plausible_unless_mtime [of env_ex idx_none "''/export/media/posts/202305/a.jpg''"]
    C2_plausible_unless_mtime [of "env_ex\<lparr>mtimeMs := (\<lambda>p. 0)\<rparr>" idx_none
      "''/export/media/other/a.jpg''"] a b
  show ?thesis by simp
qed

text \<open>
  Claim C3, as the code has it. For every media file whose basename has an entry in the
  basename table and that entry's timestamp is plausible, the resolved timestamp is the
  entry's timestamp and it comes from the exact-basename stage, whatever folder the file
  lies in.
\<close>

theorem C3_exact_basename:
  assumes "byBase idx b = Some m" and "plausible (NOW env) (ts m)" and "basename p = b"
  shows "ts m = Num (res_ts (resolveTimestamp env idx p))
         \<and> res_source (resolveTimestamp env idx p) = JsonBasename"
proof -
  from assms(2) obtain t where t: "ts m = Num t" by (cases "ts m") simp_all
  have l: "lookup_meta idx b = Some m"
    using assms by (simp add: lookup_meta_def)
  have k: "keep_plausible (NOW env) (Num t) = Some t"
    using assms(2) t by (simp add: keep_plausible_Some)
  have "spec_cascade env idx p = (t, JsonBasename)"
    using assms(1) t
    by (simp add: spec_cascade_def Let_def assms(3) l meta_ts_def first_plausible_Cons k
        del: keep_plausible.simps)
  then show ?thesis
    using resolve_ts_source [of env idx p] t by simp
qed

theorem C3_exact_basename_witness:
  "byBase idx_post ''abc123456789012.jpg'' = Some \<lparr>ts = Num 1700000000000, caption = []\<rparr>
   \<and> plausible (NOW env_ex) (Num 1700000000000)
   \<and> basename ''/export/media/posts/202311/abc123456789012.jpg'' = ''abc123456789012.jpg''
   \<and> basename ''/export/media/other/abc123456789012.jpg'' = ''abc123456789012.jpg''
   \<and> res_ts (resolveTimestamp env_ex idx_post ''/export/media/posts/202311/abc123456789012.jpg'')
       = 1700000000000
   \<and> res_ts (resolveTimestamp env_ex idx_post ''/export/media/other/abc123456789012.jpg'')
       = 1700000000000
   \<and> res_source (resolveTimestamp env_ex idx_post ''/export/media/other/abc123456789012.jpg'')
       = JsonBasename"
proof -
  have a: "byBase idx_post ''abc123456789012.jpg'' = Some \<lparr>ts = Num 1700000000000, caption = []\<rparr>"
    by code_simp
  have b: "plausible (NOW env_ex) (ts \<lparr>ts = Num 1700000000000, caption = []\<rparr>)"
    by code_simp
  have c: "basename ''/export/media/posts/202311/abc123456789012.jpg'' = ''abc123456789012.jpg''"
    by code_simp
  have d: "basename ''/export/media/other/abc123456789012.jpg'' = ''abc123456789012.jpg''"
    by code_simp
  from C3_exact_basename [OF a b c] C3_exact_basename [OF a b d] a b c d
  show ?thesis by simp
qed

theorem C3_implausible_entry_counterexample:
  "byBase idx_old (basename ''/export/media/posts/202311/old.jpg'')
     = Some \<lparr>ts = Num 1230768000000, caption = ''throwback''\<rparr>
   \<and> res_ts (resolveTimestamp env_ex idx_old ''/export/media/posts/202311/old.jpg'')
       = 1700049600000
   \<and> res_source (resolveTimestamp env_ex idx_old ''/export/media/posts/202311/old.jpg'')
       = FolderDate"
  by code_simp

subsection \<open>The folder date\<close>

lemma is_digit_20: "is_digit CHR ''2''" "is_digit CHR ''0''"
  by (simp_all add: is_digit_def)

lemma folder_groups_Some:
  assumes "folder_groups s = Some (y, m)"
  shows "\<exists>rest. s = ''/'' @ y @ m @ ''/'' @ rest \<and> length y = 4 \<and> take 2 y = ''20''
           \<and> length m = 2 \<and> (\<forall>c\<in>set (y @ m). is_digit c)"
  using assms
  by (cases s rule: folder_groups.cases) (auto simp: is_digit_20 split: if_splits)

lemma folder_match_here_Some:
  assumes "folder_match_here s = Some (y, m)"
  shows "\<exists>kind rest. folder_segment s [] kind y m rest"
proof -
  from assms have h: "take 7 s = ''/media/''"
      "take 5 (drop 7 s) = ''posts'' \<or> take 5 (drop 7 s) = ''reels''"
      "folder_groups (drop 12 s) = Some (y, m)"
    by (auto simp: folder_match_here_def split: if_splits)
  from folder_groups_Some [OF h(3)] obtain rest
    where g: "drop 12 s = ''/'' @ y @ m @ ''/'' @ rest"
      "length y = 4" "take 2 y = ''20''" "length m = 2" "\<forall>c\<in>set (y @ m). is_digit c"
    by blast
  have "s = take 7 s @ take 5 (drop 7 s) @ drop 5 (drop 7 s)"
    by (simp only: append_take_drop_id)
  also have "drop 5 (drop 7 s) = drop 12 s" by simp
  finally have "s = [] @ ''/media/'' @ take 5 (drop 7 s) @ ''/'' @ y @ m @ ''/'' @ rest"
    unfolding h(1) g(1) by (simp only: append_Nil)
  with h(2) g(2-5) have "folder_segment s [] (take 5 (drop 7 s)) y m rest"
    unfolding folder_segment_def by blast
  then show ?thesis by blast
qed

lemma folder_segment_Cons:
  "folder_segment s pre kind y m rest \<Longrightarrow> folder_segment (a # s) (a # pre) kind y m rest"
  by (simp add: folder_segment_def)

lemma folder_match_Some:
  "folder_match s = Some (y, m) \<Longrightarrow> \<exists>pre kind rest. folder_segment s pre kind y m rest"
proof (induction s)
  case Nil
  then show ?case by simp
next
  case (Cons a s)
  show ?case
  proof (cases "folder_match_here (a # s)")
    case (Some g)
    with Cons.prems have "folder_match_here (a # s) = Some (y, m)" by simp
    from folder_match_here_Some [OF this] show ?thesis by blast
  next
    case None
    with Cons.prems have "folder_match s = Some (y, m)" by simp
    from Cons.IH [OF this] folder_segment_Cons show ?thesis by blast
  qed
qed

lemma folder_match_here_segment:
  assumes "folder_segment s [] kind y m rest"
  shows "folder_match_here s = Some (y, m)"
proof -
  from assms have s: "s = ''/media/'' @ kind @ ''/'' @ y @ m @ ''/'' @ rest"
    and k: "kind = ''posts'' \<or> kind = ''reels''"
    and y: "length y = 4" "take 2 y = ''20''" and m: "length m = 2"
    and d: "\<forall>c\<in>set (y @ m). is_digit c"
    by (simp_all add: folder_segment_def)
  from y obtain c1 c2 where y': "y = [CHR ''2'', CHR ''0'', c1, c2]"
    by (cases y; cases "tl y"; cases "tl (tl y)"; cases "tl (tl (tl y))") auto
  from m obtain e f where m': "m = [e, f]"
    by (cases m; cases "tl m") auto
  from d have "is_digit c1" "is_digit c2" "is_digit e" "is_digit f"
    by (simp_all add: y' m')
  with k show ?thesis
    unfolding s y' m' by (auto simp: folder_match_here_def)
qed

lemma folder_match_complete:
  "folder_segment s pre kind y m rest \<Longrightarrow> folder_match s \<noteq> None"
proof (induction pre arbitrary: s)
  case Nil
  from folder_match_here_segment [OF Nil] have "folder_match_here s = Some (y, m)" .
  moreover from Nil have "s \<noteq> []" by (auto simp: folder_segment_def)
  ultimately show ?case by (cases s) simp_all
next
  case (Cons a pre)
  then obtain s' where s: "s = a # s'" and "folder_segment s' pre kind y m rest"
    by (auto simp: folder_segment_def)
  from Cons.IH [OF this(2)] show ?case
    unfolding s by (simp split: option.splits)
qed

lemma digit_val_range: "0 \<le> digit_val c \<and> digit_val c \<le> 9"
  by (simp add: digit_val_def)

lemma folder_year_2000:
  assumes "folder_match s = Some (y, m)"
  shows "2000 \<le> Number_digits y"
proof -
  from folder_match_Some [OF assms] have y: "length y = 4" "take 2 y = ''20''"
    by (auto simp: folder_segment_def)
  then obtain c d where "y = [CHR ''2'', CHR ''0'', c, d]"
    by (cases y; cases "tl y"; cases "tl (tl y)"; cases "tl (tl (tl y))") auto
  then have "Number_digits y = 2000 + 10 * digit_val c + digit_val d"
    by (simp add: Number_digits_def digit_val_def)
  with digit_val_range [of c] digit_val_range [of d] show ?thesis by simp
qed

lemma spec_cascade_folder:
  assumes "lookup_meta idx (basename p) = None" and "\<not> plausible (NOW env) (probe_cand env p)"
  shows "spec_cascade env idx p =
     (case keep_plausible (NOW env) (tsFromFolder p) of
        Some t \<Rightarrow> (t, FolderDate)
      | None \<Rightarrow> (mtimeMs env p, Mtime))"
proof -
  have "keep_plausible (NOW env) (probe_cand env p) = None"
    using assms(2) by (simp add: keep_plausible_None)
  then show ?thesis
    by (simp add: spec_cascade_def Let_def assms(1) meta_ts_def first_plausible_Cons
        split: option.splits)
qed

lemma folder_match_leftmost:
  "folder_segment s pre kind y m rest \<Longrightarrow>
   (\<And>pre' kind' y' m' rest'. folder_segment s pre' kind' y' m' rest' \<Longrightarrow> length pre \<le> length pre') \<Longrightarrow>
   folder_match s = Some (y, m)"
proof (induction pre arbitrary: s)
  case Nil
  from folder_match_here_segment [OF Nil(1)] have h: "folder_match_here s = Some (y, m)" .
  moreover from Nil(1) have "s \<noteq> []" by (auto simp: folder_segment_def)
  ultimately show ?case by (cases s) simp_all
next
  case (Cons a pre)
  from Cons.prems(1) obtain s' where s: "s = a # s'" and seg: "folder_segment s' pre kind y m rest"
    by (auto simp: folder_segment_def)
  have none: "folder_match_here (a # s') = None"
  proof (cases "folder_match_here (a # s')")
    case None
    then show ?thesis .
  next
    case (Some g)
    obtain y' m' where "g = (y', m')" by (cases g)
    with Some folder_match_here_Some [of "a # s'" y' m'] obtain kind' rest'
      where "folder_segment s [] kind' y' m' rest'" unfolding s by blast
    from Cons.prems(2) [OF this] show ?thesis by simp
  qed
  have left: "\<And>pre' kind' y' m' rest'. folder_segment s' pre' kind' y' m' rest' \<Longrightarrow>
      length pre \<le> length pre'"
  proof -
    fix pre' kind' y' m' rest'
    assume "folder_segment s' pre' kind' y' m' rest'"
    then have "folder_segment s (a # pre') kind' y' m' rest'"
      unfolding s by (rule folder_segment_Cons)
    from Cons.prems(2) [OF this] show "length pre \<le> length pre'" by simp
  qed
  from Cons.IH [OF seg left] none show ?case
    unfolding s by simp
qed

lemma segment_at_offset:
  assumes "folder_segment s pre kind y m rest"
  shows "folder_match_here (drop (length pre) s) \<noteq> None"
proof -
  from assms have "folder_segment (drop (length pre) s) [] kind y m rest"
    by (simp add: folder_segment_def)
  from folder_match_here_segment [OF this] show ?thesis by simp
qed

lemma leftmost_by_scan:
  assumes "list_all (\<lambda>i. folder_match_here (drop i s) = None) [0..<n]"
    and "folder_segment s pre kind y m rest"
  shows "n \<le> length pre"
proof (rule ccontr)
  assume "\<not> n \<le> length pre"
  then have "length pre \<in> set [0..<n]" by simp
  with assms(1) have "folder_match_here (drop (length pre) s) = None"
    unfolding list_all_iff by blast
  with segment_at_offset [OF assms(2)] show False by simp
qed

text \<open>
  Claim C4, as the code has it. Take a media file whose path is absolute, with no metadata
  match and no plausible container-probe time (every image is one). If the path,
  backslashes read as slashes, has no \<open>/media/(posts|reels)/20YYMM/\<close> segment, the
  resolved timestamp is the modification time. If it has one, take the leftmost: the
  folder date is \<open>Date.UTC(20YY, MM - 1, 15, 12)\<close>, which is the instant
  \<open>20YY-MM-15T12:00:00Z\<close> when \<open>MM\<close> is 01 to 12; the resolved timestamp is that folder
  date when it is plausible and the modification time otherwise.
\<close>

theorem C4_folder_date:
  assumes "isAbsolute p"
    and "lookup_meta idx (basename p) = None"
    and "\<not> plausible (NOW env) (probe_cand env p)"
  shows "((\<nexists>pre kind y m rest. folder_segment (slashes p) pre kind y m rest) \<longrightarrow>
            res_ts (resolveTimestamp env idx p) = mtimeMs env p
            \<and> res_source (resolveTimestamp env idx p) = Mtime)
       \<and> (folder_segment (slashes p) pre kind yyyy mm rest
           \<and> (\<forall>pre' kind' y' m' rest'.
                 folder_segment (slashes p) pre' kind' y' m' rest' \<longrightarrow> length pre \<le> length pre') \<longrightarrow>
            (if plausible (NOW env)
                  (Num (of_int (Date_UTC (Number_digits yyyy) (Number_digits mm - 1) 15 12)))
             then res_ts (resolveTimestamp env idx p)
                    = of_int (Date_UTC (Number_digits yyyy) (Number_digits mm - 1) 15 12)
                  \<and> res_source (resolveTimestamp env idx p) = FolderDate
             else res_ts (resolveTimestamp env idx p) = mtimeMs env p
                  \<and> res_source (resolveTimestamp env idx p) = Mtime)
            \<and> (1 \<le> Number_digits mm \<and> Number_digits mm \<le> 12 \<longrightarrow>
                 Date_UTC (Number_digits yyyy) (Number_digits mm - 1) 15 12
                   = utc_instant (Number_digits yyyy) (Number_digits mm) 15 12))"
proof -
  have e: "(res_ts (resolveTimestamp env idx p), res_source (resolveTimestamp env idx p)) =
      (case keep_plausible (NOW env) (tsFromFolder p) of
         Some t \<Rightarrow> (t, FolderDate)
       | None \<Rightarrow> (mtimeMs env p, Mtime))"
    using spec_cascade_folder [OF assms(2,3)] by (simp add: resolve_ts_source)
  have a: "(\<nexists>pre kind y m rest. folder_segment (slashes p) pre kind y m rest) \<longrightarrow>
            res_ts (resolveTimestamp env idx p) = mtimeMs env p
            \<and> res_source (resolveTimestamp env idx p) = Mtime"
  proof
    assume n: "\<nexists>pre kind y m rest. folder_segment (slashes p) pre kind y m rest"
    have "folder_match (slashes p) = None"
    proof (cases "folder_match (slashes p)")
      case None
      then show ?thesis .
    next
      case (Some g)
      obtain y m where "g = (y, m)" by (cases g)
      with Some folder_match_Some [of "slashes p" y m] n show ?thesis by blast
    qed
    then have "tsFromFolder p = Null" by (simp add: tsFromFolder_def)
    with e show "res_ts (resolveTimestamp env idx p) = mtimeMs env p
            \<and> res_source (resolveTimestamp env idx p) = Mtime" by simp
  qed
  have b: "folder_segment (slashes p) pre kind yyyy mm rest
           \<and> (\<forall>pre' kind' y' m' rest'.
                 folder_segment (slashes p) pre' kind' y' m' rest' \<longrightarrow> length pre \<le> length pre') \<longrightarrow>
            (if plausible (NOW env)
                  (Num (of_int (Date_UTC (Number_digits yyyy) (Number_digits mm - 1) 15 12)))
             then res_ts (resolveTimestamp env idx p)
                    = of_int (Date_UTC (Number_digits yyyy) (Number_digits mm - 1) 15 12)
                  \<and> res_source (resolveTimestamp env idx p) = FolderDate
             else res_ts (resolveTimestamp env idx p) = mtimeMs env p
                  \<and> res_source (resolveTimestamp env idx p) = Mtime)
            \<and> (1 \<le> Number_digits mm \<and> Number_digits mm \<le> 12 \<longrightarrow>
                 Date_UTC (Number_digits yyyy) (Number_digits mm - 1) 15 12
                   = utc_instant (Number_digits yyyy) (Number_digits mm) 15 12)"
  proof
    assume h: "folder_segment (slashes p) pre kind yyyy mm rest
           \<and> (\<forall>pre' kind' y' m' rest'.
                 folder_segment (slashes p) pre' kind' y' m' rest' \<longrightarrow> length pre \<le> length pre')"
    then have f: "folder_match (slashes p) = Some (yyyy, mm)"
      using folder_match_leftmost [of "slashes p" pre kind yyyy mm rest] by blast
    let ?t = "Date_UTC (Number_digits yyyy) (Number_digits mm - 1) 15 12"
    have t: "tsFromFolder p = Num (of_int ?t)"
      using f by (simp add: tsFromFolder_def Let_def)
    have k: "keep_plausible (NOW env) (Num (of_int ?t)) =
        (if plausible (NOW env) (Num (of_int ?t)) then Some (of_int ?t) else None)"
      by simp
    have 1: "if plausible (NOW env) (Num (of_int ?t))
             then res_ts (resolveTimestamp env idx p) = of_int ?t
                  \<and> res_source (resolveTimestamp env idx p) = FolderDate
             else res_ts (resolveTimestamp env idx p) = mtimeMs env p
                  \<and> res_source (resolveTimestamp env idx p) = Mtime"
      using e unfolding t k by (simp split: if_splits)
    have 2: "1 \<le> Number_digits mm \<and> Number_digits mm \<le> 12 \<longrightarrow>
                 ?t = utc_instant (Number_digits yyyy) (Number_digits mm) 15 12"
      using folder_year_2000 [OF f] by (simp add: Date_UTC_utc_instant)
    from 1 2 show "(if plausible (NOW env) (Num (of_int ?t))
             then res_ts (resolveTimestamp env idx p) = of_int ?t
                  \<and> res_source (resolveTimestamp env idx p) = FolderDate
             else res_ts (resolveTimestamp env idx p) = mtimeMs env p
                  \<and> res_source (resolveTimestamp env idx p) = Mtime)
            \<and> (1 \<le> Number_digits mm \<and> Number_digits mm \<le> 12 \<longrightarrow>
                 ?t = utc_instant (Number_digits yyyy) (Number_digits mm) 15 12)"
      by blast
  qed
  from a b show ?thesis by blast
qed

theorem C4_folder_date_witness:
  "isAbsolute ''/export/media/posts/202305/a.jpg''
   \<and> lookup_meta idx_none (basename ''/export/media/posts/202305/a.jpg'') = None
   \<and> \<not> plausible (NOW env_ex) (probe_cand env_ex ''/export/media/posts/202305/a.jpg'')
   \<and> folder_segment (slashes ''/export/media/posts/202305/a.jpg'')
        ''/export'' ''posts'' ''2023'' ''05'' ''a.jpg''
   \<and> utc_instant 2023 5 15 12 = 1684152000000
   \<and> plausible (NOW env_ex) (Num 1684152000000)
   \<and> res_ts (resolveTimestamp env_ex idx_none ''/export/media/posts/202305/a.jpg'') = 1684152000000
   \<and> res_source (resolveTimestamp env_ex idx_none ''/export/media/posts/202305/a.jpg'') = FolderDate
   \<and> isAbsolute ''/export/media/other/a.jpg''
   \<and> \<not> (\<exists>pre kind y m rest. folder_segment (slashes ''/export/media/other/a.jpg'') pre kind y m rest)
   \<and> res_ts (resolveTimestamp env_ex idx_none ''/export/media/other/a.jpg'')
       = mtimeMs env_ex ''/export/media/other/a.jpg''"
proof -
  let ?f = "''/export/media/posts/202305/a.jpg''" and ?g = "''/export/media/other/a.jpg''"
  have i: "isAbsolute ?f" "isAbsolute ?g" by code_simp+
  have a: "lookup_meta idx_none (basename ?f) = None" by code_simp
  have b: "\<not> plausible (NOW env_ex) (probe_cand env_ex ?f)" by code_simp
  have c: "folder_segment (slashes ?f) ''/export'' ''posts'' ''2023'' ''05'' ''a.jpg''"
    by code_simp
  have sc: "list_all (\<lambda>i. folder_match_here (drop i (slashes ?f)) = None) [0..<7]"
    by code_simp
  have l: "\<forall>pre' kind' y' m' rest'.
      folder_segment (slashes ?f) pre' kind' y' m' rest' \<longrightarrow> length ''/export'' \<le> length pre'"
  proof (intro allI impI)
    fix pre' kind' y' m' rest'
    assume "folder_segment (slashes ?f) pre' kind' y' m' rest'"
    from leftmost_by_scan [OF sc this] show "length ''/export'' \<le> length pre'" by simp
  qed
  have d: "Number_digits ''2023'' = 2023" "Number_digits ''05'' = 5"
    "utc_instant 2023 5 15 12 = 1684152000000"
    by code_simp+
  have p: "plausible (NOW env_ex) (Num 1684152000000)" by code_simp
  have a': "lookup_meta idx_none (basename ?g) = None" by code_simp
  have b': "\<not> plausible (NOW env_ex) (probe_cand env_ex ?g)" by code_simp
  have fm: "folder_match (slashes ?g) = None" by code_simp
  have c': "\<not> (\<exists>pre kind y m rest. folder_segment (slashes ?g) pre kind y m rest)"
    using folder_match_complete [of "slashes ?g"] fm by blast
  have 1: "res_ts (resolveTimestamp env_ex idx_none ?f) = 1684152000000
      \<and> res_source (resolveTimestamp env_ex idx_none ?f) = FolderDate"
    using C4_folder_date [OF i(1) a b, of "''/export''" "''posts''" "''2023''" "''05''" "''a.jpg''"]
      c l d p by (simp split: if_splits)
  have 2: "res_ts (resolveTimestamp env_ex idx_none ?g) = mtimeMs env_ex ?g"
    using C4_folder_date [OF i(2) a' b'] c' by blast
  from i a b c d(3) p 1 2 c' show ?thesis by blast
qed

theorem C4_probe_before_folder_counterexample:
  "isVideo ''/export/media/reels/202305/clip.mp4''
   \<and> isAbsolute ''/export/media/reels/202305/clip.mp4''
   \<and> lookup_meta idx_none (basename ''/export/media/reels/202305/clip.mp4'') = None
   \<and> folder_segment (slashes ''/export/media/reels/202305/clip.mp4'')
        ''/export'' ''reels'' ''2023'' ''05'' ''clip.mp4''
   \<and> utc_instant 2023 5 15 12 = 1684152000000
   \<and> res_ts (resolveTimestamp (env_ex\<lparr>ffprobeCreationTime := (\<lambda>p. Some 1683108000000)\<rparr>) idx_none
        ''/export/media/reels/202305/clip.mp4'') = 1683108000000
   \<and> res_source (resolveTimestamp (env_ex\<lparr>ffprobeCreationTime := (\<lambda>p. Some 1683108000000)\<rparr>)
        idx_none ''/export/media/reels/202305/clip.mp4'') = Ffprobe
   \<and> isAbsolute ''/export/media/posts/200912/a.jpg''
   \<and> lookup_meta idx_none (basename ''/export/media/posts/200912/a.jpg'') = None
   \<and> folder_segment (slashes ''/export/media/posts/200912/a.jpg'')
        ''/export'' ''posts'' ''2009'' ''12'' ''a.jpg''
   \<and> utc_instant 2009 12 15 12 = 1260878400000
   \<and> res_ts (resolveTimestamp env_ex idx_none ''/export/media/posts/200912/a.jpg'') = 1500000000123
   \<and> res_source (resolveTimestamp env_ex idx_none ''/export/media/posts/200912/a.jpg'') = Mtime"
  by code_simp

subsection \<open>Captions\<close>

lemma entry_caption:
  "it \<in> set (entry env idx p) \<Longrightarrow> item_caption it = caption_of (lookup_meta idx (basename p))"
  by (auto simp: entry_def image_item_def video_item_def Let_def res_meta_eq split: if_splits)

lemma entry_ts:
  "it \<in> set (entry env idx p) \<Longrightarrow> item_ts it = res_ts (resolveTimestamp env idx p)"
  by (auto simp: entry_def image_item_def video_item_def Let_def split: if_splits)

lemma spec_cascade_meta_rejected:
  assumes "\<not> plausible (NOW env) (meta_ts (lookup_meta idx (basename p)))"
  shows "snd (spec_cascade env idx p) \<in> {Ffprobe, FolderDate, Mtime}"
proof -
  have "keep_plausible (NOW env) (meta_ts (lookup_meta idx (basename p))) = None"
    using assms by (simp add: keep_plausible_None)
  then show ?thesis
    by (simp add: spec_cascade_def Let_def first_plausible_Cons split: option.splits)
qed

text \<open>
  Claim C10. When the metadata lookup of a file finds an entry (by basename, or by numeric
  token when the basename has none), every manifest item the task pushes for the file
  carries that entry's caption, whether or not the entry's timestamp is plausible; when it
  is not plausible the item's timestamp comes from the container probe, the folder date
  or the modification time, so caption and timestamp come from different sources.
\<close>

theorem C10_caption_from_entry:
  assumes "lookup_meta idx (basename p) = Some m"
  shows "(items (task env idx p w) = items w
            \<or> items (task env idx p w) = items w @ entry env idx p)
         \<and> (\<forall>it\<in>set (entry env idx p).
               item_caption it = caption m
               \<and> item_ts it = res_ts (resolveTimestamp env idx p))
         \<and> (\<not> plausible (NOW env) (ts m) \<longrightarrow>
               res_source (resolveTimestamp env idx p) \<in> {Ffprobe, FolderDate, Mtime})"
proof -
  have e: "spec_cascade env idx p =
      (res_ts (resolveTimestamp env idx p), res_source (resolveTimestamp env idx p))"
    by (simp add: resolve_ts_source)
  have a: "\<forall>it\<in>set (entry env idx p).
               item_caption it = caption m
               \<and> item_ts it = res_ts (resolveTimestamp env idx p)"
    using entry_caption [of _ env idx p] entry_ts [of _ env idx p]
    by (simp add: assms caption_of_def)
  have b: "\<not> plausible (NOW env) (ts m) \<longrightarrow>
               res_source (resolveTimestamp env idx p) \<in> {Ffprobe, FolderDate, Mtime}"
    using spec_cascade_meta_rejected [of env idx p] by (simp add: assms meta_ts_def e)
  from task_items [of env idx p w] a b show ?thesis by blast
qed

theorem C10_caption_from_entry_witness:
  "lookup_meta idx_old (basename ''/export/media/posts/202311/old.jpg'')
     = Some \<lparr>ts = Num 1230768000000, caption = ''throwback''\<rparr>
   \<and> \<not> plausible (NOW env_ex) (Num 1230768000000)
   \<and> map item_caption (items (task env_ex idx_old ''/export/media/posts/202311/old.jpg'' (start {})))
       = [''throwback'']
   \<and> map item_ts (items (task env_ex idx_old ''/export/media/posts/202311/old.jpg'' (start {})))
       = [1700049600000]
   \<and> res_source (resolveTimestamp env_ex idx_old ''/export/media/posts/202311/old.jpg'') = FolderDate"
proof -
  have a: "lookup_meta idx_old (basename ''/export/media/posts/202311/old.jpg'')
     = Some \<lparr>ts = Num 1230768000000, caption = ''throwback''\<rparr>"
    by code_simp
  have b: "\<not> plausible (NOW env_ex) (Num 1230768000000)"
    by code_simp
  have c: "items (task env_ex idx_old ''/export/media/posts/202311/old.jpg'' (start {}))
      = entry env_ex idx_old ''/export/media/posts/202311/old.jpg''"
    by code_simp
  have d: "length (entry env_ex idx_old ''/export/media/posts/202311/old.jpg'') = 1"
    by code_simp
  have e: "res_ts (resolveTimestamp env_ex idx_old ''/export/media/posts/202311/old.jpg'')
      = 1700049600000"
    "res_source (resolveTimestamp env_ex idx_old ''/export/media/posts/202311/old.jpg'') = FolderDate"
    by code_simp+
  obtain it where f: "entry env_ex idx_old ''/export/media/posts/202311/old.jpg'' = [it]"
    using d by (cases "entry env_ex idx_old ''/export/media/posts/202311/old.jpg''") auto
  from C10_caption_from_entry [OF a, of env_ex "start {}"] a b c e f
  show ?thesis by simp
qed

subsection \<open>The manifest\<close>

lemma entry_types:
  "it \<in> set (entry env idx p) \<Longrightarrow> item_type it = ''image'' \<or> item_type it = ''video''"
  by (auto simp: entry_def image_item_def video_item_def Let_def split: if_splits)

lemma task_items_pred:
  assumes "\<forall>it\<in>set (items w). P it" and "\<And>it. it \<in> set (entry env idx p) \<Longrightarrow> P it"
  shows "\<forall>it\<in>set (items (task env idx p w)). P it"
  using task_items [of env idx p w] assms by auto

lemma run_tasks_items_pred:
  assumes "\<And>it p. it \<in> set (entry env idx p) \<Longrightarrow> P it"
  shows "\<forall>it\<in>set (items w). P it \<Longrightarrow> \<forall>it\<in>set (items (run_tasks env idx files w)). P it"
proof (induction files arbitrary: w)
  case Nil
  then show ?case by (simp add: run_tasks_def)
next
  case (Cons p ps)
  from Cons.IH [OF task_items_pred [of w P env idx p, OF Cons.prems assms]] show ?case
    by (simp add: run_tasks_Cons)
qed

lemma run_tasks_item_types:
  "\<forall>it\<in>set (items (run_tasks env idx files (start d))).
     item_type it = ''image'' \<or> item_type it = ''video''"
proof -
  have a: "\<forall>it\<in>set (items (start d)). item_type it = ''image'' \<or> item_type it = ''video''"
    by (simp add: start_def)
  have b: "\<And>it p. it \<in> set (entry env idx p) \<Longrightarrow>
      item_type it = ''image'' \<or> item_type it = ''video''"
    by (rule entry_types)
  show ?thesis
    by (rule run_tasks_items_pred
        [where P = "\<lambda>it. item_type it = ''image'' \<or> item_type it = ''video''", OF b a])
qed

lemma manifest_unique:
  assumes ty: "\<forall>it\<in>set its. item_type it = ''image'' \<or> item_type it = ''video''"
  shows "distinct (map kind_path (manifest its))"
    and "\<forall>it\<in>set (manifest its). find (\<lambda>x. kind_path x = kind_path it) its = Some it"
    and "kind_path ` set (manifest its) = kind_path ` set its"
proof -
  have sub: "set (dedupe {} its) \<subseteq> set its" by (rule dedupe_subset)
  have eq: "\<And>a b. a \<in> set its \<Longrightarrow> b \<in> set its \<Longrightarrow> (key_of a = key_of b) = (kind_path a = kind_path b)"
    using ty key_of_kind_path by blast
  have "distinct (map key_of (dedupe {} its))" by (rule dedupe_distinct)
  then have "distinct (dedupe {} its)" "inj_on key_of (set (dedupe {} its))"
    by (simp_all add: distinct_map)
  moreover from this(2) have "inj_on kind_path (set (dedupe {} its))"
    using sub eq unfolding inj_on_def by blast
  ultimately have "distinct (map kind_path (dedupe {} its))"
    by (simp add: distinct_map)
  then show "distinct (map kind_path (manifest its))"
    by (simp add: manifest_def distinct_map_sort_by)
  show "\<forall>it\<in>set (manifest its). find (\<lambda>x. kind_path x = kind_path it) its = Some it"
  proof
    fix it
    assume "it \<in> set (manifest its)"
    then have m: "it \<in> set (dedupe {} its)" by (simp add: set_manifest)
    then have i: "it \<in> set its" using sub by blast
    have "find (\<lambda>x. kind_path x = kind_path it) its = find (\<lambda>x. key_of x = key_of it) its"
      by (rule find_cong) (simp_all add: eq i)
    with dedupe_first [OF m] show "find (\<lambda>x. kind_path x = kind_path it) its = Some it"
      by simp
  qed
  show "kind_path ` set (manifest its) = kind_path ` set its"
  proof
    show "kind_path ` set (manifest its) \<subseteq> kind_path ` set its"
      using sub by (auto simp: set_manifest)
    show "kind_path ` set its \<subseteq> kind_path ` set (manifest its)"
    proof
      fix kp
      assume "kp \<in> kind_path ` set its"
      then obtain a where a: "a \<in> set its" "kp = kind_path a" by blast
      then have "key_of a \<in> set (map key_of its) - {}" by simp
      then have "key_of a \<in> set (map key_of (dedupe {} its))"
        unfolding dedupe_keys .
      then obtain b where b: "b \<in> set (dedupe {} its)" "key_of b = key_of a" by auto
      with sub a eq have "kind_path b = kp" by blast
      with b show "kp \<in> kind_path ` set (manifest its)"
        by (auto simp: set_manifest)
    qed
  qed
qed

text \<open>
  Claim C6. In the final manifest the (kind, primary output path) pairs are pairwise
  distinct; every entry of the manifest is the first accumulated item with its pair, so a
  later item with the same pair is dropped and nothing is merged; and every pair that was
  accumulated is still there.
\<close>

theorem C6_unique_kind_path:
  "distinct (map kind_path (main env idx files d))
   \<and> (\<forall>it\<in>set (main env idx files d).
         find (\<lambda>x. kind_path x = kind_path it) (items (run_tasks env idx files (start d)))
           = Some it)
   \<and> kind_path ` set (main env idx files d)
       = kind_path ` set (items (run_tasks env idx files (start d)))"
proof -
  from manifest_unique [OF run_tasks_item_types [of env idx files d]] show ?thesis
    unfolding main_def by blast
qed

theorem C6_unique_kind_path_witness:
  "map kind_path (items (run_tasks env_ex idx_none
       [''/export/media/posts/202305/a.jpg'', ''/export/media/other/a.jpg''] (start {})))
     = [(''image'', ''assets/media/img/full/a-1a2b3c4d.webp''),
        (''image'', ''assets/media/img/full/a-1a2b3c4d.webp'')]
   \<and> main env_ex idx_none [''/export/media/posts/202305/a.jpg'', ''/export/media/other/a.jpg''] {}
     = [image_item env_ex idx_none ''/export/media/posts/202305/a.jpg'']
   \<and> distinct (map kind_path (main env_ex idx_none
         [''/export/media/posts/202305/a.jpg'', ''/export/media/other/a.jpg''] {}))"
proof -
  have a: "map kind_path (items (run_tasks env_ex idx_none
       [''/export/media/posts/202305/a.jpg'', ''/export/media/other/a.jpg''] (start {})))
     = [(''image'', ''assets/media/img/full/a-1a2b3c4d.webp''),
        (''image'', ''assets/media/img/full/a-1a2b3c4d.webp'')]"
    by code_simp
  have b: "main env_ex idx_none [''/export/media/posts/202305/a.jpg'', ''/export/media/other/a.jpg''] {}
     = [image_item env_ex idx_none ''/export/media/posts/202305/a.jpg'']"
    by code_simp
  from C6_unique_kind_path [of env_ex idx_none
      "[''/export/media/posts/202305/a.jpg'', ''/export/media/other/a.jpg'']" "{}"] a b
  show ?thesis by blast
qed

text \<open>
  Claim C5, at an input where the code departs from it. Two images of the same folder,
  without metadata, resolve to the same folder date. The claim orders equal timestamps by
  descending identifier, whatever the processing order. The manifest lists the two in the
  order in which their tasks completed: ascending identifiers when \<open>a.jpg\<close> completes
  first, descending when \<open>b.jpg\<close> does.
\<close>

theorem C5_ties_keep_accumulation_order:
  "map item_id (main env_ex idx_none
       [''/export/media/posts/202305/a.jpg'', ''/export/media/posts/202305/b.jpg''] {})
     = [''a-1a2b3c4d'', ''b-5e6f7a8b'']
   \<and> map item_ts (main env_ex idx_none
       [''/export/media/posts/202305/a.jpg'', ''/export/media/posts/202305/b.jpg''] {})
     = [1684152000000, 1684152000000]
   \<and> ''a-1a2b3c4d'' < ''b-5e6f7a8b''
   \<and> map item_id (main env_ex idx_none
       [''/export/media/posts/202305/b.jpg'', ''/export/media/posts/202305/a.jpg''] {})
     = [''b-5e6f7a8b'', ''a-1a2b3c4d'']"
  by code_simp

subsection \<open>The fallback chain\<close>

lemma new_calls_items [simp]: "new_calls w (w'\<lparr>items := its\<rparr>) = new_calls w w'"
  by (simp add: new_calls_def)

lemma chain_success:
  assumes ns: "\<not> (\<not> FORCE env \<and> om \<in> disk w \<and> op \<in> disk w)"
    and f: "chain_failure env s om w = None"
  shows "chain_ok env s om op w"
proof (cases "transcode_outcome env s om w")
  case None
  from chain_transcode_ok [OF ns None] show ?thesis .
next
  case t: (Some e1)
  show ?thesis
  proof (cases "remux_outcome env s om w")
    case None
    from chain_remux_ok [OF ns t None] show ?thesis .
  next
    case r: (Some e2)
    show ?thesis
    proof (cases "synth_outcome env s om w")
      case None
      from chain_synth_ok [OF ns t r None] show ?thesis .
    next
      case (Some e3)
      with t r f show ?thesis by (simp add: chain_failure_def)
    qed
  qed
qed

lemma chain_failed:
  assumes ns: "\<not> (\<not> FORCE env \<and> om \<in> disk w \<and> op \<in> disk w)"
    and f: "chain_failure env s om w = Some reason"
  shows "fst (processVideo env s om op w) = False"
    and "items (snd (processVideo env s om op w)) = items w"
    and "skiplog (snd (processVideo env s om op w)) = skiplog w @ [(reason, s)]"
    and "new_calls w (snd (processVideo env s om op w)) = chain_calls env s om w"
proof -
  from f obtain e1 e2 e3
    where t: "transcode_outcome env s om w = Some e1"
      and r: "remux_outcome env s om w = Some e2"
      and y: "synth_outcome env s om w = Some e3"
      and m: "reason = ''video failed: transcode -> '' @ e1 @ ''; remux -> '' @ e2
                         @ ''; synth -> '' @ e3"
    by (auto simp: chain_failure_def split: option.splits)
  show "fst (processVideo env s om op w) = False"
    by (rule chain_exhausted(1) [OF ns t r y])
  show "items (snd (processVideo env s om op w)) = items w"
    by (rule chain_exhausted(2) [OF ns t r y])
  show "skiplog (snd (processVideo env s om op w)) = skiplog w @ [(reason, s)]"
    unfolding m by (rule chain_exhausted(3) [OF ns t r y])
  show "new_calls w (snd (processVideo env s om op w)) = chain_calls env s om w"
    by (rule chain_exhausted(4) [OF ns t r y])
qed

text \<open>
  Claim C7, as the code has it. Take a video that is not skipped for having both outputs
  (force is set, or one of the two outputs is missing). Transcode is invoked first, remux
  only after transcode failed, the audio probe and synth only after both failed, and the
  synth stage fails when the source has no audio stream. If all three stages fail, the
  task pushes no item and appends exactly one skip-log line that holds the three failure
  reasons; otherwise it pushes exactly one item, and the only line it may append is the
  poster notice.
\<close>

theorem C7_video_chain:
  assumes "isVideo p"
    and "FORCE env \<or> outMp4_of env p \<notin> disk w \<or> outPoster_of env p \<notin> disk w"
  shows "(case chain_failure env p (outMp4_of env p) w of
            Some reason \<Rightarrow>
              items (task env idx p w) = items w
              \<and> skiplog (task env idx p w) = skiplog w @ [(reason, p)]
              \<and> new_calls w (task env idx p w) = chain_calls env p (outMp4_of env p) w
          | None \<Rightarrow>
              items (task env idx p w) = items w @ [video_item env idx p]
              \<and> (skiplog (task env idx p w) = skiplog w
                  \<or> skiplog (task env idx p w)
                      = skiplog w @ [(''poster failed; using solid placeholder'', p)])
              \<and> take (length (chain_calls env p (outMp4_of env p) w)) (new_calls w (task env idx p w))
                  = chain_calls env p (outMp4_of env p) w
              \<and> (\<forall>c\<in>set (drop (length (chain_calls env p (outMp4_of env p) w))
                              (new_calls w (task env idx p w))). is_poster_call c))
       \<and> (chain_failure env p (outMp4_of env p) w \<noteq> None) =
           (transcode_outcome env p (outMp4_of env p) w \<noteq> None
            \<and> remux_outcome env p (outMp4_of env p) w \<noteq> None
            \<and> synth_outcome env p (outMp4_of env p) w \<noteq> None)
       \<and> (\<not> hasAudio env p \<longrightarrow>
            synth_outcome env p (outMp4_of env p) w = Some ''no audio to synth'')"
proof -
  let ?om = "outMp4_of env p" and ?op = "outPoster_of env p"
  from assms(2) have ns: "\<not> (\<not> FORCE env \<and> ?om \<in> disk w \<and> ?op \<in> disk w)" by blast
  have a: "case chain_failure env p ?om w of
            Some reason \<Rightarrow>
              items (task env idx p w) = items w
              \<and> skiplog (task env idx p w) = skiplog w @ [(reason, p)]
              \<and> new_calls w (task env idx p w) = chain_calls env p ?om w
          | None \<Rightarrow>
              items (task env idx p w) = items w @ [video_item env idx p]
              \<and> (skiplog (task env idx p w) = skiplog w
                  \<or> skiplog (task env idx p w)
                      = skiplog w @ [(''poster failed; using solid placeholder'', p)])
              \<and> take (length (chain_calls env p ?om w)) (new_calls w (task env idx p w))
                  = chain_calls env p ?om w
              \<and> (\<forall>c\<in>set (drop (length (chain_calls env p ?om w))
                              (new_calls w (task env idx p w))). is_poster_call c)"
  proof (cases "chain_failure env p ?om w")
    case None
    from chain_success [OF ns None] have "chain_ok env p ?om ?op w" .
    then show ?thesis
      unfolding None option.case
      by (simp add: chain_ok_def Let_def task_video [OF assms(1)])
  next
    case (Some reason)
    from chain_failed [OF ns Some] show ?thesis
      unfolding Some option.case
      by (simp add: Let_def task_video [OF assms(1)])
  qed
  have b: "(chain_failure env p ?om w \<noteq> None) =
           (transcode_outcome env p ?om w \<noteq> None \<and> remux_outcome env p ?om w \<noteq> None
            \<and> synth_outcome env p ?om w \<noteq> None)"
    by (simp add: chain_failure_def split: option.splits)
  have c: "\<not> hasAudio env p \<longrightarrow> synth_outcome env p ?om w = Some ''no audio to synth''"
    by (simp add: synth_outcome_def)
  from a b c show ?thesis by blast
qed

theorem C7_video_chain_witness:
  "isVideo ''/export/media/reels/202305/clip.mp4''
   \<and> (FORCE env_fail
        \<or> outMp4_of env_fail ''/export/media/reels/202305/clip.mp4'' \<notin> disk (start {})
        \<or> outPoster_of env_fail ''/export/media/reels/202305/clip.mp4'' \<notin> disk (start {}))
   \<and> \<not> hasAudio env_fail ''/export/media/reels/202305/clip.mp4''
   \<and> items (task env_fail idx_none ''/export/media/reels/202305/clip.mp4'' (start {})) = []
   \<and> skiplog (task env_fail idx_none ''/export/media/reels/202305/clip.mp4'' (start {}))
       = [(''video failed: transcode -> encode failed; remux -> remux failed; synth -> no audio to synth'',
           ''/export/media/reels/202305/clip.mp4'')]
   \<and> new_calls (start {}) (task env_fail idx_none ''/export/media/reels/202305/clip.mp4'' (start {}))
       = [Transcode ''/export/media/reels/202305/clip.mp4'' ''assets/media/video/720p/clip-5e6f7a8b.mp4'',
          Remux ''/export/media/reels/202305/clip.mp4'' ''assets/media/video/720p/clip-5e6f7a8b.mp4'',
          ProbeStreams ''/export/media/reels/202305/clip.mp4'']"
proof -
  have a: "isVideo ''/export/media/reels/202305/clip.mp4''"
    by code_simp
  have b: "FORCE env_fail
        \<or> outMp4_of env_fail ''/export/media/reels/202305/clip.mp4'' \<notin> disk (start {})
        \<or> outPoster_of env_fail ''/export/media/reels/202305/clip.mp4'' \<notin> disk (start {})"
    by code_simp
  have c: "chain_failure env_fail ''/export/media/reels/202305/clip.mp4''
        (outMp4_of env_fail ''/export/media/reels/202305/clip.mp4'') (start {})
      = Some ''video failed: transcode -> encode failed; remux -> remux failed; synth -> no audio to synth''"
    by code_simp
  have d: "chain_calls env_fail ''/export/media/reels/202305/clip.mp4''
        (outMp4_of env_fail ''/export/media/reels/202305/clip.mp4'') (start {})
      = [Transcode ''/export/media/reels/202305/clip.mp4'' ''assets/media/video/720p/clip-5e6f7a8b.mp4'',
         Remux ''/export/media/reels/202305/clip.mp4'' ''assets/media/video/720p/clip-5e6f7a8b.mp4'',
         ProbeStreams ''/export/media/reels/202305/clip.mp4'']"
    by code_simp
  have e: "\<not> hasAudio env_fail ''/export/media/reels/202305/clip.mp4''"
    by code_simp
  have f: "items (start {}) = []" "skiplog (start {}) = []"
    by (simp_all add: start_def)
  from C7_video_chain [OF a b, of idx_none] a b e
  show ?thesis unfolding c d option.case f by simp
qed

theorem C7_existing_outputs_counterexample:
  "isVideo ''/export/media/reels/202305/clip.mp4''
   \<and> new_calls (start disk_ex) (task env_ex idx_none ''/export/media/reels/202305/clip.mp4'' (start disk_ex))
       = []
   \<and> items (task env_ex idx_none ''/export/media/reels/202305/clip.mp4'' (start disk_ex))
       = [video_item env_ex idx_none ''/export/media/reels/202305/clip.mp4'']"
  by code_simp

text \<open>
  Claim C8, at an input where the code departs from it. The transcode succeeds, no frame
  can be taken from the transcoded file, and a frame can be taken from the original
  source. The claim tries the source before the placeholder. The invocations are the
  transcode, the frame extraction from the transcoded output and the solid placeholder:
  the source is never tried. The video is in the manifest all the same.
\<close>

theorem C8_placeholder_before_source_frame:
  "new_calls (start {}) (task env_noframe idx_none ''/export/media/reels/202305/clip.mp4'' (start {}))
     = [Transcode ''/export/media/reels/202305/clip.mp4'' ''assets/media/video/720p/clip-5e6f7a8b.mp4'',
        Poster ''assets/media/video/720p/clip-5e6f7a8b.mp4''
          ''assets/media/video/posters/clip-5e6f7a8b.jpg'',
        SolidPoster ''assets/media/video/posters/clip-5e6f7a8b.jpg'']
   \<and> tool env_noframe
         [Transcode ''/export/media/reels/202305/clip.mp4'' ''assets/media/video/720p/clip-5e6f7a8b.mp4'',
          Poster ''assets/media/video/720p/clip-5e6f7a8b.mp4''
            ''assets/media/video/posters/clip-5e6f7a8b.jpg'']
         (Poster ''/export/media/reels/202305/clip.mp4''
            ''assets/media/video/posters/clip-5e6f7a8b.jpg'') = None
   \<and> items (task env_noframe idx_none ''/export/media/reels/202305/clip.mp4'' (start {}))
     = [video_item env_noframe idx_none ''/export/media/reels/202305/clip.mp4'']"
  by code_simp

subsection \<open>Idempotence\<close>




end
